theory Spec2Isabelle
  imports Main "HOL-Library.Word"
begin

unbundle bit_operations_syntax

section \<open>Machine types and constants\<close>

type_synonym u8 = "8 word"
type_synonym u16 = "16 word"

text \<open>\<^verbatim>\<open>ip_addr_t\<close> is declared in ip.h, which is not among the sources; the spec calls
  it a 32-bit opaque identifier compared by equality. \<^verbatim>\<open>time_t\<close> is a count of seconds;
  it is modelled as an unbounded integer (signed overflow is undefined in C and does not
  arise for clock readings).\<close>

type_synonym ip_addr_t = "32 word"
type_synonym time_t = int

text \<open>Constants of arp.c itself.\<close>

definition ARP_HRD_ETHERNET :: u16 where "ARP_HRD_ETHERNET = 0x0001"
definition ARP_OP_REQUEST :: u16 where "ARP_OP_REQUEST = 1"
definition ARP_OP_REPLY :: u16 where "ARP_OP_REPLY = 2"
definition ARP_TABLE_SIZE :: nat where "ARP_TABLE_SIZE = 4096"
definition ARP_TABLE_TIMEOUT_SEC :: time_t where "ARP_TABLE_TIMEOUT_SEC = 300"

text \<open>Modelled from the spec: the constants of ethernet.h, ip.h and arp.h, which are not
  among the sources. The spec gives the link address as 6 octets, the protocol address as
  4 octets, EtherType 0x0800 for IPv4 and 0x0806 for ARP, the all-zero link address as
  "unresolved", the all-ones one as broadcast, and the return codes
  FOUND = 1, QUERY = 0, ERROR = -1.\<close>

definition ETHERNET_ADDR_LEN :: nat where "ETHERNET_ADDR_LEN = 6"
definition IP_ADDR_LEN :: nat where "IP_ADDR_LEN = 4"
definition ETHERNET_TYPE_IP :: u16 where "ETHERNET_TYPE_IP = 0x0800"
definition ETHERNET_TYPE_ARP :: u16 where "ETHERNET_TYPE_ARP = 0x0806"
definition ETHERNET_ADDR_ANY :: "u8 list" where "ETHERNET_ADDR_ANY = replicate 6 0"
definition ETHERNET_ADDR_BROADCAST :: "u8 list" where "ETHERNET_ADDR_BROADCAST = replicate 6 0xff"
definition ARP_RESOLVE_ERROR :: int where "ARP_RESOLVE_ERROR = - 1"
definition ARP_RESOLVE_QUERY :: int where "ARP_RESOLVE_QUERY = 0"
definition ARP_RESOLVE_FOUND :: int where "ARP_RESOLVE_FOUND = 1"

text \<open>\<^verbatim>\<open>NETIF_FAMILY_IPV4\<close> is from net.h; \<^verbatim>\<open>EINTR\<close> and \<^verbatim>\<open>ETIMEDOUT\<close> are the values of
  errno.h on Linux.\<close>

definition NETIF_FAMILY_IPV4 :: int where "NETIF_FAMILY_IPV4 = 0x02"
definition EINTR :: int where "EINTR = 4"
definition ETIMEDOUT :: int where "ETIMEDOUT = 110"

section \<open>Byte order and the packed message layout\<close>

datatype endianness = LittleEndian | BigEndian

definition byteswap16 :: "u16 \<Rightarrow> u16" where
  "byteswap16 v = (push_bit 8 v) OR (drop_bit 8 v)"

text \<open>Modelled from the spec: \<^verbatim>\<open>hton16\<close> and \<^verbatim>\<open>ntoh16\<close> are declared in util.h, their
  bodies (util.c) are not among the sources. The spec has them convert 16-bit fields
  between host and network (big-endian) byte order: the identity on a big-endian host,
  a swap of the two octets on a little-endian one.\<close>

definition hton16 :: "endianness \<Rightarrow> u16 \<Rightarrow> u16" where
  "hton16 e h = (case e of LittleEndian \<Rightarrow> byteswap16 h | BigEndian \<Rightarrow> h)"

definition ntoh16 :: "endianness \<Rightarrow> u16 \<Rightarrow> u16" where
  "ntoh16 e n = (case e of LittleEndian \<Rightarrow> byteswap16 n | BigEndian \<Rightarrow> n)"

text \<open>Reading and writing a \<^verbatim>\<open>uint16_t\<close> or a 32-bit field at an octet offset of a buffer,
  as a host of the given byte order does.\<close>

definition load16 :: "endianness \<Rightarrow> u8 list \<Rightarrow> nat \<Rightarrow> u16" where
  "load16 e bs off = (case e of
      BigEndian \<Rightarrow> word_cat (bs ! off) (bs ! (off + 1))
    | LittleEndian \<Rightarrow> word_cat (bs ! (off + 1)) (bs ! off))"

definition store16 :: "endianness \<Rightarrow> u16 \<Rightarrow> u8 list" where
  "store16 e w = (case e of
      BigEndian \<Rightarrow> [ucast (drop_bit 8 w), ucast w]
    | LittleEndian \<Rightarrow> [ucast w, ucast (drop_bit 8 w)])"

definition load32 :: "endianness \<Rightarrow> u8 list \<Rightarrow> nat \<Rightarrow> ip_addr_t" where
  "load32 e bs off = (case e of
      BigEndian \<Rightarrow> word_cat (load16 e bs off) (load16 e bs (off + 2))
    | LittleEndian \<Rightarrow> word_cat (load16 e bs (off + 2)) (load16 e bs off))"

definition store32 :: "endianness \<Rightarrow> ip_addr_t \<Rightarrow> u8 list" where
  "store32 e w = (case e of
      BigEndian \<Rightarrow> store16 e (ucast (drop_bit 16 w)) @ store16 e (ucast w)
    | LittleEndian \<Rightarrow> store16 e (ucast w) @ store16 e (ucast (drop_bit 16 w)))"

text \<open>\<^verbatim>\<open>struct arp_hdr\<close> and the packed \<^verbatim>\<open>struct arp_ethernet\<close>: 2+2+1+1+2 octets of
  header, then sha (6), spa (4), tha (6), tpa (4): 28 octets. The 16-bit fields hold what
  the host reads from memory, so the code passes them through \<^verbatim>\<open>ntoh16\<close>.\<close>

record arp_hdr =
  hrd :: u16
  pro :: u16
  hln :: u8
  pln :: u8
  op :: u16

record arp_ethernet =
  hdr :: arp_hdr
  sha :: "u8 list"
  spa :: ip_addr_t
  tha :: "u8 list"
  tpa :: ip_addr_t

definition sizeof_arp_ethernet :: nat where
  "sizeof_arp_ethernet = 28"

text \<open>The cast \<^verbatim>\<open>(struct arp_ethernet *)packet\<close>: the struct a buffer is read as.\<close>

definition arp_ethernet_of_bytes :: "endianness \<Rightarrow> u8 list \<Rightarrow> arp_ethernet" where
  "arp_ethernet_of_bytes e bs =
     \<lparr> hdr = \<lparr> hrd = load16 e bs 0, pro = load16 e bs 2, hln = bs ! 4, pln = bs ! 5,
               op = load16 e bs 6 \<rparr>,
       sha = take 6 (drop 8 bs),
       spa = load32 e bs 14,
       tha = take 6 (drop 18 bs),
       tpa = load32 e bs 24 \<rparr>"

text \<open>The cast \<^verbatim>\<open>(uint8_t *)&request\<close>: the octets of a struct in memory.\<close>

definition bytes_of_arp_ethernet :: "endianness \<Rightarrow> arp_ethernet \<Rightarrow> u8 list" where
  "bytes_of_arp_ethernet e m =
     store16 e (hrd (hdr m)) @ store16 e (pro (hdr m)) @ [hln (hdr m), pln (hdr m)] @
     store16 e (op (hdr m)) @ take 6 (sha m) @ store32 e (spa m) @ take 6 (tha m) @
     store32 e (tpa m)"

text \<open>The decoded field tuple: the fields as \<^verbatim>\<open>arp_rx\<close> and \<^verbatim>\<open>arp_dump\<close> read them from a
  received buffer (16-bit fields through \<^verbatim>\<open>ntoh16\<close>, addresses as they lie in memory), and
  the encoding as \<^verbatim>\<open>arp_send_request\<close> and \<^verbatim>\<open>arp_send_reply\<close> fill a struct from field
  values (16-bit fields through \<^verbatim>\<open>hton16\<close>) and hand its octets to the device.\<close>

record arp_fields =
  f_hrd :: u16
  f_pro :: u16
  f_hln :: u8
  f_pln :: u8
  f_op :: u16
  f_sha :: "u8 list"
  f_spa :: ip_addr_t
  f_tha :: "u8 list"
  f_tpa :: ip_addr_t

definition arp_decode :: "endianness \<Rightarrow> u8 list \<Rightarrow> arp_fields" where
  "arp_decode e bs =
     (let m = arp_ethernet_of_bytes e bs in
      \<lparr> f_hrd = ntoh16 e (hrd (hdr m)), f_pro = ntoh16 e (pro (hdr m)),
        f_hln = hln (hdr m), f_pln = pln (hdr m), f_op = ntoh16 e (op (hdr m)),
        f_sha = sha m, f_spa = spa m, f_tha = tha m, f_tpa = tpa m \<rparr>)"

definition arp_encode :: "endianness \<Rightarrow> arp_fields \<Rightarrow> u8 list" where
  "arp_encode e f =
     bytes_of_arp_ethernet e
       \<lparr> hdr = \<lparr> hrd = hton16 e (f_hrd f), pro = hton16 e (f_pro f), hln = f_hln f,
                 pln = f_pln f, op = hton16 e (f_op f) \<rparr>,
         sha = take ETHERNET_ADDR_LEN (f_sha f),
         spa = f_spa f,
         tha = take ETHERNET_ADDR_LEN (f_tha f),
         tpa = f_tpa f \<rparr>"

section \<open>Devices, interfaces and the cache\<close>

text \<open>\<^verbatim>\<open>struct netdev\<close> (net.h), reduced to what arp.c reads: the identity of the device
  (its address in memory, compared by \<^verbatim>\<open>!=\<close>) and its link address. \<^verbatim>\<open>struct netif\<close> with
  the \<^verbatim>\<open>unicast\<close> member that arp.c reads through the cast to \<^verbatim>\<open>struct netif_ip\<close>.\<close>

record netdev =
  dev_id :: nat
  addr :: "u8 list"

record netif =
  family :: int
  dev :: netdev
  unicast :: ip_addr_t

text \<open>\<^verbatim>\<open>struct arp_entry\<close>. A pointer is an option (\<open>None\<close> is \<^verbatim>\<open>NULL\<close>); the buffer
  behind \<^verbatim>\<open>data\<close> is its octets. The condition variable \<^verbatim>\<open>cond\<close> has no value of its own:
  every broadcast on it is recorded in the state below.\<close>

record arp_entry =
  used :: bool
  pa :: ip_addr_t
  ha :: "u8 list"
  timestamp :: time_t
  data :: "u8 list option"
  len :: nat
  netif :: "netif option"

text \<open>One call of \<^verbatim>\<open>dev->ops->tx(dev, type, packet, size, dst)\<close>.\<close>

record tx_call =
  tx_dev :: netdev
  tx_type :: u16
  tx_packet :: "u8 list"
  tx_size :: nat
  tx_dst :: "u8 list"

text \<open>The state under the mutex: the static \<^verbatim>\<open>arp_table\<close> and the static \<^verbatim>\<open>timestamp\<close>
  of the last sweep (the fields \<open>table\<close> and \<open>sweep_timestamp\<close>: a field \<open>arp_table\<close>
  would take the name \<open>arp_table_update\<close> from the function, and the entries have a
  \<open>timestamp\<close> too). The
  other fields record the effects of the code in the order they happen: the indices of
  the entries whose condition variable was broadcast on, the frames handed to a device,
  the number of warnings printed, and the clock readings at which \<^verbatim>\<open>arp_table_patrol\<close>
  was called.\<close>

record arp_state =
  table :: "arp_entry list"
  sweep_timestamp :: time_t
  broadcasts :: "nat list"
  tx_log :: "tx_call list"
  warnings :: nat
  sweeps :: "time_t list"

text \<open>What the code takes from its surroundings: the byte order of the host, the value
  the device's \<^verbatim>\<open>tx\<close> returns for a call, and \<^verbatim>\<open>netdev_get_netif\<close> (declared in net.h, its
  body is not among the sources).\<close>

record env =
  endian :: endianness
  tx :: "tx_call \<Rightarrow> int"
  netdev_get_netif :: "netdev \<Rightarrow> int \<Rightarrow> netif option"

text \<open>How a call can fail to return: a \<^verbatim>\<open>NULL\<close> pointer is dereferenced, or the caller is
  still inside \<^verbatim>\<open>pthread_cond_timedwait\<close> when the wake-ups given to the model run out.\<close>

datatype abort = NullDeref | Blocked

section \<open>The cache operations\<close>

function arp_table_freespace_from :: "arp_entry list \<Rightarrow> nat \<Rightarrow> nat option" where
  "arp_table_freespace_from tbl i =
     (if i < ARP_TABLE_SIZE then
        (if \<not> used (tbl ! i) then Some i else arp_table_freespace_from tbl (Suc i))
      else None)"
  by pat_completeness auto
termination
  by (relation "measure (\<lambda>(tbl, i). ARP_TABLE_SIZE - i)") auto

declare arp_table_freespace_from.simps [simp del]

definition arp_table_freespace :: "arp_entry list \<Rightarrow> nat option" where
  "arp_table_freespace tbl = arp_table_freespace_from tbl 0"

definition arp_table_insert ::
  "time_t \<Rightarrow> ip_addr_t \<Rightarrow> u8 list \<Rightarrow> arp_state \<Rightarrow> int \<times> arp_state" where
  "arp_table_insert now p h s =
     (case arp_table_freespace (table s) of
        None \<Rightarrow> (- 1, s)
      | Some i \<Rightarrow>
          (0, s\<lparr> table := (table s)[i := (table s ! i)
                    \<lparr> used := True, pa := p, ha := take ETHERNET_ADDR_LEN h,
                      timestamp := now \<rparr>],
                 broadcasts := broadcasts s @ [i] \<rparr>))"

function arp_table_select_from :: "arp_entry list \<Rightarrow> ip_addr_t \<Rightarrow> nat \<Rightarrow> nat option" where
  "arp_table_select_from tbl p i =
     (if i < ARP_TABLE_SIZE then
        (if used (tbl ! i) \<and> pa (tbl ! i) = p then Some i
         else arp_table_select_from tbl p (Suc i))
      else None)"
  by pat_completeness auto
termination
  by (relation "measure (\<lambda>(tbl, p, i). ARP_TABLE_SIZE - i)") auto

declare arp_table_select_from.simps [simp del]

definition arp_table_select :: "arp_entry list \<Rightarrow> ip_addr_t \<Rightarrow> nat option" where
  "arp_table_select tbl p = arp_table_select_from tbl p 0"

text \<open>\<^verbatim>\<open>arp_table_update\<close>. The return value of \<^verbatim>\<open>tx\<close> is not looked at; \<^verbatim>\<open>free\<close> leaves no
  trace in the model. \<^verbatim>\<open>entry->netif->dev\<close> with a \<^verbatim>\<open>NULL\<close> netif is the fault.\<close>

definition arp_table_update ::
  "time_t \<Rightarrow> netdev \<Rightarrow> ip_addr_t \<Rightarrow> u8 list \<Rightarrow> arp_state \<Rightarrow> abort + (int \<times> arp_state)" where
  "arp_table_update now dv p h s =
     (case arp_table_select (table s) p of
        None \<Rightarrow> Inr (- 1, s)
      | Some i \<Rightarrow>
          (let e = (table s ! i)\<lparr> ha := take ETHERNET_ADDR_LEN h, timestamp := now \<rparr> in
           case data e of
             None \<Rightarrow>
               Inr (0, s\<lparr> table := (table s)[i := e],
                          broadcasts := broadcasts s @ [i] \<rparr>)
           | Some d \<Rightarrow>
               (case netif e of
                  None \<Rightarrow> Inl NullDeref
                | Some nif \<Rightarrow>
                    (let warn = (dev nif \<noteq> dv);
                         dv' = (if warn then dev nif else dv);
                         call = \<lparr> tx_dev = dv', tx_type = ETHERNET_TYPE_IP, tx_packet = d,
                                  tx_size = len e, tx_dst = ha e \<rparr>
                     in Inr (0, s\<lparr> table := (table s)[i := e\<lparr> data := None, len := 0 \<rparr>],
                                   warnings := warnings s + (if warn then 1 else 0),
                                   tx_log := tx_log s @ [call],
                                   broadcasts := broadcasts s @ [i] \<rparr>)))))"

definition arp_entry_clear :: "arp_entry \<Rightarrow> arp_entry" where
  "arp_entry_clear e =
     (let e1 = e\<lparr> used := False, pa := 0, ha := replicate ETHERNET_ADDR_LEN 0,
                  timestamp := 0 \<rparr>;
          e2 = (if data e1 \<noteq> None then e1\<lparr> data := None, len := 0 \<rparr> else e1)
      in e2\<lparr> netif := None \<rparr>)"

section \<open>Sending requests and replies\<close>

definition arp_send_request ::
  "env \<Rightarrow> netif option \<Rightarrow> ip_addr_t option \<Rightarrow> arp_state \<Rightarrow> abort + (int \<times> arp_state)" where
  "arp_send_request en nif target s =
     (case target of
        None \<Rightarrow> Inr (- 1, s)
      | Some t \<Rightarrow>
          (case nif of
             None \<Rightarrow> Inl NullDeref
           | Some n \<Rightarrow>
               (let request =
                      \<lparr> hdr = \<lparr> hrd = hton16 (endian en) ARP_HRD_ETHERNET,
                                pro = hton16 (endian en) ETHERNET_TYPE_IP,
                                hln = of_nat ETHERNET_ADDR_LEN, pln = of_nat IP_ADDR_LEN,
                                op = hton16 (endian en) ARP_OP_REQUEST \<rparr>,
                        sha = take ETHERNET_ADDR_LEN (addr (dev n)),
                        spa = unicast n,
                        tha = replicate ETHERNET_ADDR_LEN 0,
                        tpa = t \<rparr>;
                    call = \<lparr> tx_dev = dev n, tx_type = ETHERNET_TYPE_ARP,
                             tx_packet = bytes_of_arp_ethernet (endian en) request,
                             tx_size = sizeof_arp_ethernet, tx_dst = ETHERNET_ADDR_BROADCAST \<rparr>;
                    s' = s\<lparr> tx_log := tx_log s @ [call] \<rparr>
                in if tx en call = - 1 then Inr (- 1, s') else Inr (0, s'))))"

definition arp_send_reply ::
  "env \<Rightarrow> netif option \<Rightarrow> u8 list option \<Rightarrow> ip_addr_t option \<Rightarrow> u8 list \<Rightarrow> arp_state \<Rightarrow>
     abort + (int \<times> arp_state)" where
  "arp_send_reply en nif thw target dst s =
     (case (thw, target) of
        (Some th, Some t) \<Rightarrow>
          (case nif of
             None \<Rightarrow> Inl NullDeref
           | Some n \<Rightarrow>
               (let reply =
                      \<lparr> hdr = \<lparr> hrd = hton16 (endian en) ARP_HRD_ETHERNET,
                                pro = hton16 (endian en) ETHERNET_TYPE_IP,
                                hln = of_nat ETHERNET_ADDR_LEN, pln = of_nat IP_ADDR_LEN,
                                op = hton16 (endian en) ARP_OP_REPLY \<rparr>,
                        sha = take ETHERNET_ADDR_LEN (addr (dev n)),
                        spa = unicast n,
                        tha = take ETHERNET_ADDR_LEN th,
                        tpa = t \<rparr>;
                    call = \<lparr> tx_dev = dev n, tx_type = ETHERNET_TYPE_ARP,
                             tx_packet = bytes_of_arp_ethernet (endian en) reply,
                             tx_size = sizeof_arp_ethernet, tx_dst = dst \<rparr>;
                    s' = s\<lparr> tx_log := tx_log s @ [call] \<rparr>
                in if tx en call < 0 then Inr (- 1, s') else Inr (0, s')))
      | _ \<Rightarrow> Inr (- 1, s))"

section \<open>The receive handler\<close>

text \<open>\<^verbatim>\<open>arp_table_patrol\<close>: the loop over the table, from index \<open>i\<close> on.\<close>

function arp_table_patrol_from :: "nat \<Rightarrow> arp_state \<Rightarrow> arp_state" where
  "arp_table_patrol_from i s =
     (if i < ARP_TABLE_SIZE then
        arp_table_patrol_from (Suc i)
          (if used (table s ! i) \<and>
              sweep_timestamp s - timestamp (table s ! i) > ARP_TABLE_TIMEOUT_SEC
           then s\<lparr> table := (table s)[i := arp_entry_clear (table s ! i)],
                   broadcasts := broadcasts s @ [i] \<rparr>
           else s)
      else s)"
  by pat_completeness auto
termination
  by (relation "measure (\<lambda>(i, s). ARP_TABLE_SIZE - i)") auto

declare arp_table_patrol_from.simps [simp del]

definition arp_table_patrol :: "arp_state \<Rightarrow> arp_state" where
  "arp_table_patrol s = arp_table_patrol_from 0 s"

text \<open>\<^verbatim>\<open>arp_rx\<close> holds the mutex twice. Its first critical section (from
  \<^verbatim>\<open>pthread_mutex_lock\<close> to the first \<^verbatim>\<open>pthread_mutex_unlock\<close>) reads the clock, sweeps
  when the last sweep is more than 10 seconds old, and updates the entry of the sender;
  it yields \<^verbatim>\<open>merge\<close>. \<open>now\<close> is the clock reading of \<^verbatim>\<open>arp_rx\<close>, \<open>now_upd\<close> the one of
  \<^verbatim>\<open>arp_table_update\<close>. The call of \<^verbatim>\<open>arp_table_patrol\<close> is recorded in \<open>sweeps\<close>.\<close>

definition arp_rx_merge ::
  "time_t \<Rightarrow> time_t \<Rightarrow> netdev \<Rightarrow> arp_ethernet \<Rightarrow> arp_state \<Rightarrow> abort + (int \<times> arp_state)" where
  "arp_rx_merge now now_upd dv m s =
     (let s1 = (if now - sweep_timestamp s > 10
                then arp_table_patrol (s\<lparr> sweep_timestamp := now, sweeps := sweeps s @ [now] \<rparr>)
                else s)
      in case arp_table_update now_upd dv (spa m) (sha m) s1 of
           Inl a \<Rightarrow> Inl a
         | Inr (r, s2) \<Rightarrow> Inr (if r = 0 then 1 else 0, s2))"

text \<open>The rest of \<^verbatim>\<open>arp_rx\<close>, after the first unlock: the lookup of the device's IPv4
  interface, the insert under the second lock when nothing was merged, and the reply to
  a request. \<open>now_ins\<close> is the clock reading of \<^verbatim>\<open>arp_table_insert\<close>.\<close>

definition arp_rx_answer ::
  "env \<Rightarrow> time_t \<Rightarrow> netdev \<Rightarrow> arp_ethernet \<Rightarrow> int \<Rightarrow> arp_state \<Rightarrow> abort + arp_state" where
  "arp_rx_answer en now_ins dv m merge s =
     (case netdev_get_netif en dv NETIF_FAMILY_IPV4 of
        None \<Rightarrow> Inr s
      | Some nif \<Rightarrow>
          (if unicast nif = tpa m then
             (let s1 = (if merge = 0 then snd (arp_table_insert now_ins (spa m) (sha m) s)
                        else s)
              in if ntoh16 (endian en) (op (hdr m)) = ARP_OP_REQUEST then
                   (case arp_send_reply en (Some nif) (Some (sha m)) (Some (spa m)) (sha m) s1 of
                      Inl a \<Rightarrow> Inl a
                    | Inr (r, s2) \<Rightarrow> Inr s2)
                 else Inr s1)
           else Inr s))"

text \<open>The whole of \<^verbatim>\<open>arp_rx\<close>. The length of the buffer is \<^verbatim>\<open>plen\<close>. \<open>other\<close> is what
  the other threads do to the state while this one holds no lock, between the two
  critical sections; it is the identity when nothing else runs.\<close>

definition arp_rx ::
  "env \<Rightarrow> time_t \<Rightarrow> time_t \<Rightarrow> time_t \<Rightarrow> (arp_state \<Rightarrow> arp_state) \<Rightarrow> u8 list \<Rightarrow> netdev \<Rightarrow>
     arp_state \<Rightarrow> abort + arp_state" where
  "arp_rx en now now_upd now_ins other packet dv s =
     (if length packet < sizeof_arp_ethernet then Inr s
      else
        (let m = arp_ethernet_of_bytes (endian en) packet in
         if ntoh16 (endian en) (hrd (hdr m)) \<noteq> ARP_HRD_ETHERNET then Inr s
         else if ntoh16 (endian en) (pro (hdr m)) \<noteq> ETHERNET_TYPE_IP then Inr s
         else if unat (hln (hdr m)) \<noteq> ETHERNET_ADDR_LEN then Inr s
         else if unat (pln (hdr m)) \<noteq> IP_ADDR_LEN then Inr s
         else
           (case arp_rx_merge now now_upd dv m s of
              Inl a \<Rightarrow> Inl a
            | Inr (merge, s1) \<Rightarrow> arp_rx_answer en now_ins dv m merge (other s1))))"

section \<open>The resolver\<close>

text \<open>\<^verbatim>\<open>arp_resolve\<close> up to the point where it returns or starts to wait: the hit on a
  resolved entry, the hit on an entry whose \<open>ha\<close> is still all zero (a request is sent
  again and the caller waits on the entry's condition variable), and the miss, which
  creates the entry. \<open>malloc_ok\<close> says whether \<^verbatim>\<open>malloc\<close> returns a buffer; \<open>now\<close> is the
  clock reading stored in the new entry.\<close>

datatype progress = Return int "u8 list option" | Wait nat

definition arp_resolve_enter ::
  "env \<Rightarrow> time_t \<Rightarrow> bool \<Rightarrow> netif option \<Rightarrow> ip_addr_t \<Rightarrow> u8 list option \<Rightarrow> nat \<Rightarrow>
     arp_state \<Rightarrow> abort + (progress \<times> arp_state)" where
  "arp_resolve_enter en now malloc_ok nif p dat ln s =
     (case arp_table_select (table s) p of
        Some i \<Rightarrow>
          (if ha (table s ! i) = ETHERNET_ADDR_ANY then
             (case arp_send_request en nif (Some p) s of
                Inl a \<Rightarrow> Inl a
              | Inr (r, s1) \<Rightarrow> Inr (Wait i, s1))
           else Inr (Return ARP_RESOLVE_FOUND (Some (ha (table s ! i))), s))
      | None \<Rightarrow>
          (case arp_table_freespace (table s) of
             None \<Rightarrow> Inr (Return ARP_RESOLVE_ERROR None, s)
           | Some i \<Rightarrow>
               (let e = table s ! i in
                if dat \<noteq> None \<and> \<not> malloc_ok then
                  Inr (Return ARP_RESOLVE_ERROR None,
                       s\<lparr> table := (table s)[i := e\<lparr> data := None \<rparr>] \<rparr>)
                else
                  (let e1 = (case dat of
                               None \<Rightarrow> e
                             | Some d \<Rightarrow> e\<lparr> data := Some (take ln d), len := ln \<rparr>);
                       e2 = e1\<lparr> used := True, pa := p, timestamp := now, netif := nif \<rparr>;
                       s1 = s\<lparr> table := (table s)[i := e2] \<rparr>
                   in case arp_send_request en nif (Some p) s1 of
                        Inl a \<Rightarrow> Inl a
                      | Inr (r, s2) \<Rightarrow> Inr (Return ARP_RESOLVE_QUERY None, s2)))))"

text \<open>The code after the wait loop, run with the mutex held again: \<open>ret\<close> is what
  \<^verbatim>\<open>pthread_cond_timedwait\<close> returned and \<open>i\<close> the entry the caller waited on.\<close>

definition arp_resolve_woken :: "int \<Rightarrow> nat \<Rightarrow> arp_state \<Rightarrow> int \<times> u8 list option \<times> arp_state" where
  "arp_resolve_woken ret i s =
     (let e = table s ! i in
      if \<not> used e \<or> ret = ETIMEDOUT then
        (ARP_RESOLVE_ERROR, None,
         if used e then s\<lparr> table := (table s)[i := arp_entry_clear e] \<rparr> else s)
      else (ARP_RESOLVE_FOUND, Some (ha e), s))"

text \<open>The loop \<^verbatim>\<open>do { ret = pthread_cond_timedwait(...); } while (ret == EINTR)\<close>. Each
  return of the wait is a pair: what the other threads did to the state while the mutex
  was released, and the value returned. The deadline of one second shows only in that
  value (\<^verbatim>\<open>ETIMEDOUT\<close>). When the list is used up the caller is still waiting.\<close>

type_synonym wake = "(arp_state \<Rightarrow> arp_state) \<times> int"

fun arp_resolve_wait ::
  "nat \<Rightarrow> wake list \<Rightarrow> arp_state \<Rightarrow> abort + (int \<times> u8 list option \<times> arp_state)" where
  "arp_resolve_wait i [] s = Inl Blocked"
| "arp_resolve_wait i ((other, ret) # ws) s =
     (if ret = EINTR then arp_resolve_wait i ws (other s)
      else Inr (arp_resolve_woken ret i (other s)))"

text \<open>\<^verbatim>\<open>arp_resolve\<close>: the return code, what was copied to \<^verbatim>\<open>ha\<close> (\<open>None\<close> when nothing
  was), and the state.\<close>

definition arp_resolve ::
  "env \<Rightarrow> time_t \<Rightarrow> bool \<Rightarrow> wake list \<Rightarrow> netif option \<Rightarrow> ip_addr_t \<Rightarrow> u8 list option \<Rightarrow> nat \<Rightarrow>
     arp_state \<Rightarrow> abort + (int \<times> u8 list option \<times> arp_state)" where
  "arp_resolve en now malloc_ok wakes nif p dat ln s =
     (case arp_resolve_enter en now malloc_ok nif p dat ln s of
        Inl a \<Rightarrow> Inl a
      | Inr (Return r h, s1) \<Rightarrow> Inr (r, h, s1)
      | Inr (Wait i, s1) \<Rightarrow> arp_resolve_wait i wakes s1)"

section \<open>Initial and reachable states\<close>

text \<open>The table is static, so every entry starts zeroed; \<^verbatim>\<open>arp_init\<close> stamps the sweep
  clock.\<close>

definition arp_entry_zero :: arp_entry where
  "arp_entry_zero =
     \<lparr> used = False, pa = 0, ha = replicate ETHERNET_ADDR_LEN 0, timestamp = 0,
       data = None, len = 0, netif = None \<rparr>"

definition arp_init :: "time_t \<Rightarrow> arp_state" where
  "arp_init now =
     \<lparr> table = replicate ARP_TABLE_SIZE arp_entry_zero, sweep_timestamp = now,
       broadcasts = [], tx_log = [], warnings = 0, sweeps = [] \<rparr>"

text \<open>The states the program can be in while no thread holds the mutex: any number of
  threads run \<^verbatim>\<open>arp_rx\<close> and \<^verbatim>\<open>arp_resolve\<close>, and each step is one critical section of one
  of them, with any arguments. A section that dereferences \<^verbatim>\<open>NULL\<close> ends the program and
  yields no state.\<close>

inductive reachable :: "arp_state \<Rightarrow> bool" where
  start: "reachable (arp_init now)"
| rx_merge:
    "reachable s \<Longrightarrow> arp_rx_merge now now_upd dv m s = Inr (mg, s') \<Longrightarrow> reachable s'"
| rx_answer:
    "reachable s \<Longrightarrow> arp_rx_answer en now_ins dv m mg s = Inr s' \<Longrightarrow> reachable s'"
| resolve_enter:
    "reachable s \<Longrightarrow> arp_resolve_enter en now mok nif p dat ln s = Inr (pr, s') \<Longrightarrow>
     reachable s'"
| resolve_woken:
    "reachable s \<Longrightarrow> i < ARP_TABLE_SIZE \<Longrightarrow> arp_resolve_woken ret i s = (r, h, s') \<Longrightarrow>
     reachable s'"

section \<open>Invariants of the reachable states\<close>

text \<open>What every entry of a reachable state satisfies: a payload comes with its netif, an
  entry without payload has length 0, and a free entry has the all-zero link address and
  no payload.\<close>

definition entry_ok :: "arp_entry \<Rightarrow> bool" where
  "entry_ok e \<longleftrightarrow>
     (data e \<noteq> None \<longrightarrow> netif e \<noteq> None) \<and>
     (data e = None \<longrightarrow> len e = 0) \<and>
     (\<not> used e \<longrightarrow> ha e = ETHERNET_ADDR_ANY \<and> data e = None)"

definition table_ok :: "arp_state \<Rightarrow> bool" where
  "table_ok s \<longleftrightarrow> length (table s) = ARP_TABLE_SIZE \<and> (\<forall>i < ARP_TABLE_SIZE. entry_ok (table s ! i))"

text \<open>The sweep log: any two sweeps are more than 10 seconds apart, and none is later than
  the sweep timestamp.\<close>

definition sweeps_ok :: "arp_state \<Rightarrow> bool" where
  "sweeps_ok s \<longleftrightarrow>
     (\<forall>i j. i < j \<and> j < length (sweeps s) \<longrightarrow> 10 < sweeps s ! j - sweeps s ! i) \<and>
     (\<forall>i < length (sweeps s). sweeps s ! i \<le> sweep_timestamp s)"

text \<open>Uniqueness: no two used entries of the table have the same protocol address.\<close>

definition unique_pa :: "arp_entry list \<Rightarrow> bool" where
  "unique_pa tbl \<longleftrightarrow>
     (\<forall>i j. i < ARP_TABLE_SIZE \<and> j < ARP_TABLE_SIZE \<and> used (tbl ! i) \<and> used (tbl ! j) \<and>
            pa (tbl ! i) = pa (tbl ! j) \<longrightarrow> i = j)"

section \<open>Concrete devices, environments and states\<close>

text \<open>A device with link address 02:00:00:00:00:01, its IPv4 interface 10.0.0.1 (the
  address as a little-endian host holds it), a device whose \<^verbatim>\<open>tx\<close> sends everything and
  one whose \<^verbatim>\<open>tx\<close> always fails, and the protocol address 10.0.0.2.\<close>

definition ex_dev :: netdev where
  "ex_dev = \<lparr> dev_id = 0, addr = [0x02, 0, 0, 0, 0, 0x01] \<rparr>"

definition ex_netif :: netif where
  "ex_netif = \<lparr> family = NETIF_FAMILY_IPV4, dev = ex_dev, unicast = 0x0100000A \<rparr>"

definition ex_tx_ok :: "tx_call \<Rightarrow> int" where
  "ex_tx_ok c = int (tx_size c)"

definition ex_tx_fails :: "tx_call \<Rightarrow> int" where
  "ex_tx_fails c = - 1"

definition ex_get_netif :: "netdev \<Rightarrow> int \<Rightarrow> netif option" where
  "ex_get_netif d f = (if d = ex_dev \<and> f = NETIF_FAMILY_IPV4 then Some ex_netif else None)"

definition ex_env :: env where
  "ex_env = \<lparr> endian = LittleEndian, tx = ex_tx_ok, netdev_get_netif = ex_get_netif \<rparr>"

definition ex_pa :: ip_addr_t where
  "ex_pa = 0x0200000A"

text \<open>The request \<^verbatim>\<open>arp_resolve\<close> broadcasts for 10.0.0.2, and the states a first
  \<^verbatim>\<open>arp_resolve\<close> for that address leaves behind at clock reading 7: without a payload,
  and with the payload DE AD. A second device for a reply that arrives elsewhere.\<close>

definition ex_request :: tx_call where
  "ex_request =
     \<lparr> tx_dev = ex_dev, tx_type = ETHERNET_TYPE_ARP,
       tx_packet = arp_encode LittleEndian
         \<lparr> f_hrd = 1, f_pro = 0x0800, f_hln = 6, f_pln = 4, f_op = 1,
           f_sha = addr ex_dev, f_spa = unicast ex_netif, f_tha = replicate 6 0,
           f_tpa = ex_pa \<rparr>,
       tx_size = 28, tx_dst = ETHERNET_ADDR_BROADCAST \<rparr>"

definition ex_inflight :: arp_state where
  "ex_inflight =
     (arp_init 0)\<lparr> table := (table (arp_init 0))
                     [0 := arp_entry_zero\<lparr> used := True, pa := ex_pa, timestamp := 7,
                                           netif := Some ex_netif \<rparr>],
                   tx_log := [ex_request] \<rparr>"

definition ex_pending :: arp_state where
  "ex_pending =
     (arp_init 0)\<lparr> table := (table (arp_init 0))
                     [0 := arp_entry_zero\<lparr> data := Some [0xDE, 0xAD], len := 2, used := True,
                                           pa := ex_pa, timestamp := 7,
                                           netif := Some ex_netif \<rparr>],
                   tx_log := [ex_request] \<rparr>"

definition ex_dev2 :: netdev where
  "ex_dev2 = \<lparr> dev_id = 1, addr = [0x02, 0, 0, 0, 0, 0x11] \<rparr>"

text \<open>An ARP request as it arrives: sender 02:00:00:00:00:07 at 10.0.0.7 asks for
  10.0.0.1.\<close>

definition ex_arp_request :: "u8 list" where
  "ex_arp_request =
     [0x00, 0x01, 0x08, 0x00, 0x06, 0x04, 0x00, 0x01,
      0x02, 0x00, 0x00, 0x00, 0x00, 0x07, 0x0A, 0x00, 0x00, 0x07,
      0x00, 0x00, 0x00, 0x00, 0x00, 0x00, 0x0A, 0x00, 0x00, 0x01]"

text \<open>The states after one and after two sweeps of the empty cache, at clock readings 11
  and 22.\<close>

definition ex_swept1 :: arp_state where
  "ex_swept1 = (arp_init 0)\<lparr> sweep_timestamp := 11, sweeps := [11] \<rparr>"

definition ex_swept2 :: arp_state where
  "ex_swept2 = (arp_init 0)\<lparr> sweep_timestamp := 22, sweeps := [11, 22] \<rparr>"

text \<open>The environment whose device fails every transmit; the in-flight state after a second
  \<^verbatim>\<open>arp_resolve\<close> has sent its request again, and after that caller has timed out and
  cleared the entry.\<close>

definition ex_env_txfail :: env where
  "ex_env_txfail = ex_env\<lparr> tx := ex_tx_fails \<rparr>"

definition ex_spurious :: arp_state where
  "ex_spurious = ex_inflight\<lparr> tx_log := [ex_request, ex_request] \<rparr>"

definition ex_timedout :: arp_state where
  "ex_timedout =
     ex_inflight\<lparr> table := (table ex_inflight)[0 := arp_entry_clear (table ex_inflight ! 0)],
                   tx_log := [ex_request, ex_request] \<rparr>"

text \<open>The sender address 10.0.0.7 of the request above, and a second thread that calls
  \<^verbatim>\<open>arp_resolve\<close> for it without a payload.\<close>

definition ex_spa :: ip_addr_t where
  "ex_spa = 0x0700000A"

definition ex_caller :: "arp_state \<Rightarrow> arp_state" where
  "ex_caller s =
     (case arp_resolve ex_env 2 True [] (Some ex_netif) ex_spa None 0 s of
        Inl a \<Rightarrow> s
      | Inr (r, h, s') \<Rightarrow> s')"

section \<open>The scans and the invariants\<close>

lemma freespace_from_Some:
  "arp_table_freespace_from tbl i = Some j \<Longrightarrow>
     i \<le> j \<and> j < ARP_TABLE_SIZE \<and> \<not> used (tbl ! j) \<and> (\<forall>k. i \<le> k \<and> k < j \<longrightarrow> used (tbl ! k))"
proof (induction tbl i rule: arp_table_freespace_from.induct)
  case (1 tbl i)
  show ?case
  proof (cases "i < ARP_TABLE_SIZE \<and> used (tbl ! i)")
    case True
    with "1.prems" have "arp_table_freespace_from tbl (Suc i) = Some j"
      by (simp add: arp_table_freespace_from.simps [of tbl i])
    with True "1.IH" have IH: "Suc i \<le> j \<and> j < ARP_TABLE_SIZE \<and> \<not> used (tbl ! j) \<and>
        (\<forall>k. Suc i \<le> k \<and> k < j \<longrightarrow> used (tbl ! k))"
      by simp
    have "used (tbl ! k)" if "i \<le> k" "k < j" for k
      using that IH True by (cases "k = i") auto
    with IH show ?thesis by auto
  next
    case False
    with "1.prems" show ?thesis
      by (auto simp: arp_table_freespace_from.simps [of tbl i] split: if_splits)
  qed
qed

lemma freespace_from_None:
  "arp_table_freespace_from tbl i = None \<longleftrightarrow> (\<forall>j. i \<le> j \<and> j < ARP_TABLE_SIZE \<longrightarrow> used (tbl ! j))"
proof (induction tbl i rule: arp_table_freespace_from.induct)
  case (1 tbl i)
  show ?case
  proof (cases "i < ARP_TABLE_SIZE \<and> used (tbl ! i)")
    case True
    then have "arp_table_freespace_from tbl i = arp_table_freespace_from tbl (Suc i)"
      by (simp add: arp_table_freespace_from.simps [of tbl i])
    moreover have "(\<forall>j. i \<le> j \<and> j < ARP_TABLE_SIZE \<longrightarrow> used (tbl ! j)) \<longleftrightarrow>
        (\<forall>j. Suc i \<le> j \<and> j < ARP_TABLE_SIZE \<longrightarrow> used (tbl ! j))"
      using True by (metis Suc_leD Suc_leI le_neq_implies_less)
    ultimately show ?thesis using True "1.IH" by simp
  next
    case False
    then show ?thesis
      by (auto simp: arp_table_freespace_from.simps [of tbl i])
  qed
qed

lemma select_from_Some:
  "arp_table_select_from tbl p i = Some j \<Longrightarrow>
     i \<le> j \<and> j < ARP_TABLE_SIZE \<and> used (tbl ! j) \<and> pa (tbl ! j) = p \<and>
     (\<forall>k. i \<le> k \<and> k < j \<longrightarrow> \<not> (used (tbl ! k) \<and> pa (tbl ! k) = p))"
proof (induction tbl p i rule: arp_table_select_from.induct)
  case (1 tbl p i)
  show ?case
  proof (cases "i < ARP_TABLE_SIZE \<and> \<not> (used (tbl ! i) \<and> pa (tbl ! i) = p)")
    case True
    with "1.prems" have "arp_table_select_from tbl p (Suc i) = Some j"
      by (auto simp: arp_table_select_from.simps [of tbl p i])
    with True "1.IH" have IH: "Suc i \<le> j \<and> j < ARP_TABLE_SIZE \<and> used (tbl ! j) \<and> pa (tbl ! j) = p \<and>
        (\<forall>k. Suc i \<le> k \<and> k < j \<longrightarrow> \<not> (used (tbl ! k) \<and> pa (tbl ! k) = p))"
      by simp
    have "\<not> (used (tbl ! k) \<and> pa (tbl ! k) = p)" if "i \<le> k" "k < j" for k
      using that IH True by (cases "k = i") auto
    with IH show ?thesis by auto
  next
    case False
    with "1.prems" show ?thesis
      by (auto simp: arp_table_select_from.simps [of tbl p i] split: if_splits)
  qed
qed

lemma select_from_None:
  "arp_table_select_from tbl p i = None \<longleftrightarrow>
     (\<forall>j. i \<le> j \<and> j < ARP_TABLE_SIZE \<longrightarrow> \<not> (used (tbl ! j) \<and> pa (tbl ! j) = p))"
proof (induction tbl p i rule: arp_table_select_from.induct)
  case (1 tbl p i)
  show ?case
  proof (cases "i < ARP_TABLE_SIZE \<and> \<not> (used (tbl ! i) \<and> pa (tbl ! i) = p)")
    case True
    then have "arp_table_select_from tbl p i = arp_table_select_from tbl p (Suc i)"
      by (auto simp: arp_table_select_from.simps [of tbl p i])
    moreover have "(\<forall>j. i \<le> j \<and> j < ARP_TABLE_SIZE \<longrightarrow> \<not> (used (tbl ! j) \<and> pa (tbl ! j) = p)) \<longleftrightarrow>
        (\<forall>j. Suc i \<le> j \<and> j < ARP_TABLE_SIZE \<longrightarrow> \<not> (used (tbl ! j) \<and> pa (tbl ! j) = p))"
      using True by (metis Suc_leD Suc_leI le_neq_implies_less)
    ultimately show ?thesis using True "1.IH" by simp
  next
    case False
    then show ?thesis
      by (auto simp: arp_table_select_from.simps [of tbl p i])
  qed
qed


lemma entry_ok_clear: "entry_ok e \<Longrightarrow> entry_ok (arp_entry_clear e)"
  by (simp add: entry_ok_def arp_entry_clear_def Let_def ETHERNET_ADDR_ANY_def ETHERNET_ADDR_LEN_def)

lemma entry_ok_zero: "entry_ok arp_entry_zero"
  by (simp add: entry_ok_def arp_entry_zero_def ETHERNET_ADDR_ANY_def ETHERNET_ADDR_LEN_def)

lemma table_ok_init: "table_ok (arp_init now)"
  by (simp add: table_ok_def arp_init_def entry_ok_zero)

lemma table_ok_update_entry:
  assumes "table_ok s" "entry_ok e" "table s' = (table s)[i := e]"
  shows "table_ok s'"
proof (cases "i < length (table s)")
  case True
  with assms show ?thesis by (auto simp: table_ok_def nth_list_update)
next
  case False
  with assms show ?thesis by (simp add: table_ok_def)
qed

lemma table_ok_same_table: "table_ok s \<Longrightarrow> table s' = table s \<Longrightarrow> table_ok s'"
  by (simp add: table_ok_def)

lemma patrol_from_table_ok: "table_ok s \<Longrightarrow> table_ok (arp_table_patrol_from i s)"
proof (induction i s rule: arp_table_patrol_from.induct)
  case (1 i s)
  show ?case
  proof (cases "i < ARP_TABLE_SIZE")
    case True
    let ?s = "(if used (table s ! i) \<and>
              sweep_timestamp s - timestamp (table s ! i) > ARP_TABLE_TIMEOUT_SEC
           then s\<lparr> table := (table s)[i := arp_entry_clear (table s ! i)],
                   broadcasts := broadcasts s @ [i] \<rparr>
           else s)"
    have "entry_ok (arp_entry_clear (table s ! i))"
      using "1.prems" True by (simp add: table_ok_def entry_ok_clear)
    then have "table_ok ?s"
      using "1.prems" by (auto intro: table_ok_update_entry)
    with True "1.IH" have "table_ok (arp_table_patrol_from (Suc i) ?s)" by simp
    with True show ?thesis by (simp add: arp_table_patrol_from.simps [of i s])
  next
    case False
    with "1.prems" show ?thesis by (simp add: arp_table_patrol_from.simps [of i s])
  qed
qed

lemma patrol_from_frame:
  "sweep_timestamp (arp_table_patrol_from i s) = sweep_timestamp s \<and>
   sweeps (arp_table_patrol_from i s) = sweeps s \<and>
   tx_log (arp_table_patrol_from i s) = tx_log s \<and>
   warnings (arp_table_patrol_from i s) = warnings s \<and>
   length (table (arp_table_patrol_from i s)) = length (table s)"
proof (induction i s rule: arp_table_patrol_from.induct)
  case (1 i s)
  show ?case
  proof (cases "i < ARP_TABLE_SIZE")
    case True
    with "1.IH" show ?thesis
      by (simp add: arp_table_patrol_from.simps [of i s])
  next
    case False
    then show ?thesis by (simp add: arp_table_patrol_from.simps [of i s])
  qed
qed

lemma insert_table_ok:
  assumes "table_ok s" shows "table_ok (snd (arp_table_insert now p h s))"
proof (cases "arp_table_freespace (table s)")
  case None
  with assms show ?thesis by (simp add: arp_table_insert_def)
next
  case (Some i)
  then have i: "i < ARP_TABLE_SIZE" "\<not> used (table s ! i)"
    using freespace_from_Some [of "table s" 0 i] by (simp_all add: arp_table_freespace_def)
  with assms have "entry_ok (table s ! i)" by (simp add: table_ok_def)
  with i have "entry_ok ((table s ! i)\<lparr> used := True, pa := p, ha := take ETHERNET_ADDR_LEN h,
                      timestamp := now \<rparr>)"
    by (simp add: entry_ok_def)
  with assms Some show ?thesis
    by (auto simp: arp_table_insert_def intro: table_ok_update_entry)
qed

lemma update_table_ok:
  assumes "table_ok s" "arp_table_update now dv p h s = Inr (r, s')"
  shows "table_ok s'"
proof (cases "arp_table_select (table s) p")
  case None
  with assms show ?thesis by (simp add: arp_table_update_def)
next
  case (Some i)
  then have i: "i < ARP_TABLE_SIZE" "used (table s ! i)"
    using select_from_Some [of "table s" p 0 i] by (simp_all add: arp_table_select_def)
  with assms have ok: "entry_ok (table s ! i)" by (simp add: table_ok_def)
  show ?thesis
  proof (cases "data (table s ! i)")
    case None
    with ok i have "entry_ok ((table s ! i)\<lparr> ha := take ETHERNET_ADDR_LEN h, timestamp := now \<rparr>)"
      by (simp add: entry_ok_def)
    with assms Some None show ?thesis
      by (auto simp: arp_table_update_def Let_def intro: table_ok_update_entry)
  next
    case (Some d)
    with ok i have "entry_ok ((table s ! i)\<lparr> ha := take ETHERNET_ADDR_LEN h, timestamp := now,
        data := None, len := 0 \<rparr>)"
      by (simp add: entry_ok_def)
    with assms \<open>arp_table_select (table s) p = Some i\<close> Some show ?thesis
      by (auto simp: arp_table_update_def Let_def split: option.splits
          intro: table_ok_update_entry)
  qed
qed

lemma send_request_table:
  "arp_send_request en nif tgt s = Inr (r, s') \<Longrightarrow>
     table s' = table s \<and> sweeps s' = sweeps s \<and> sweep_timestamp s' = sweep_timestamp s \<and>
     broadcasts s' = broadcasts s \<and> (tgt \<noteq> None \<longrightarrow> nif \<noteq> None)"
  by (auto simp: arp_send_request_def Let_def split: option.splits if_splits)

lemma send_reply_table:
  "arp_send_reply en nif thw tgt dst s = Inr (r, s') \<Longrightarrow>
     table s' = table s \<and> sweeps s' = sweeps s \<and> sweep_timestamp s' = sweep_timestamp s \<and>
     broadcasts s' = broadcasts s"
  by (auto simp: arp_send_reply_def Let_def split: option.splits if_splits)

lemma rx_merge_table_ok:
  assumes "table_ok s" "arp_rx_merge now now_upd dv m s = Inr (mg, s')"
  shows "table_ok s'"
proof -
  let ?s1 = "(if now - sweep_timestamp s > 10
                then arp_table_patrol (s\<lparr> sweep_timestamp := now, sweeps := sweeps s @ [now] \<rparr>)
                else s)"
  have "table_ok (s\<lparr> sweep_timestamp := now, sweeps := sweeps s @ [now] \<rparr>)"
    using assms(1) by (simp add: table_ok_def)
  then have "table_ok ?s1"
    using assms(1) by (simp add: arp_table_patrol_def patrol_from_table_ok)
  moreover obtain r where "arp_table_update now_upd dv (spa m) (sha m) ?s1 = Inr (r, s')"
    using assms(2) by (auto simp: arp_rx_merge_def Let_def split: sum.splits)
  ultimately show ?thesis by (rule update_table_ok)
qed

lemma rx_answer_table_ok:
  assumes "table_ok s" "arp_rx_answer en now_ins dv m mg s = Inr s'"
  shows "table_ok s'"
  using assms insert_table_ok [OF assms(1), of now_ins "spa m" "sha m"]
  by (auto simp: arp_rx_answer_def Let_def split: option.splits if_splits sum.splits
      dest!: send_reply_table intro: table_ok_same_table)

lemma resolve_woken_table_ok:
  assumes "table_ok s" "i < ARP_TABLE_SIZE" "arp_resolve_woken ret i s = (r, h, s')"
  shows "table_ok s'"
proof -
  have "entry_ok (arp_entry_clear (table s ! i))"
    using assms(1,2) by (simp add: table_ok_def entry_ok_clear)
  with assms show ?thesis
    by (auto simp: arp_resolve_woken_def Let_def split: if_splits
        intro: table_ok_update_entry)
qed

lemma resolve_enter_table_ok:
  assumes "table_ok s" "arp_resolve_enter en now mok nif p dat ln s = Inr (pr, s')"
  shows "table_ok s'"
proof (cases "arp_table_select (table s) p")
  case (Some i)
  with assms show ?thesis
    by (auto simp: arp_resolve_enter_def split: if_splits sum.splits
        dest!: send_request_table intro: table_ok_same_table)
next
  case None
  show ?thesis
  proof (cases "arp_table_freespace (table s)")
    case None
    with assms \<open>arp_table_select (table s) p = None\<close> show ?thesis
      by (simp add: arp_resolve_enter_def)
  next
    case (Some i)
    then have i: "i < ARP_TABLE_SIZE" "\<not> used (table s ! i)"
      using freespace_from_Some [of "table s" 0 i] by (simp_all add: arp_table_freespace_def)
    with assms have ok: "entry_ok (table s ! i)" by (simp add: table_ok_def)
    let ?e = "table s ! i"
    show ?thesis
    proof (cases "dat \<noteq> None \<and> \<not> mok")
      case True
      have "entry_ok (?e\<lparr> data := None \<rparr>)"
        using ok i by (simp add: entry_ok_def)
      with assms True Some \<open>arp_table_select (table s) p = None\<close> show ?thesis
        by (auto simp: arp_resolve_enter_def Let_def intro: table_ok_update_entry)
    next
      case False
      let ?e1 = "(case dat of None \<Rightarrow> ?e | Some d \<Rightarrow> ?e\<lparr> data := Some (take ln d), len := ln \<rparr>)"
      let ?e2 = "?e1\<lparr> used := True, pa := p, timestamp := now, netif := nif \<rparr>"
      let ?s1 = "s\<lparr> table := (table s)[i := ?e2] \<rparr>"
      obtain r where sr: "arp_send_request en nif (Some p) ?s1 = Inr (r, s')"
        using assms(2) False Some \<open>arp_table_select (table s) p = None\<close>
        by (auto simp: arp_resolve_enter_def Let_def split: sum.splits)
      then have nif: "nif \<noteq> None" and tbl: "table s' = table ?s1"
        using send_request_table [OF sr] by simp_all
      have "entry_ok ?e2"
        using ok i nif by (auto simp: entry_ok_def split: option.splits)
      then have "table_ok ?s1"
        using assms(1) by (auto intro: table_ok_update_entry)
      with tbl show ?thesis by (auto intro: table_ok_same_table)
    qed
  qed
qed

lemma reachable_table_ok: "reachable s \<Longrightarrow> table_ok s"
proof (induction rule: reachable.induct)
  case (start now)
  show ?case by (rule table_ok_init)
next
  case (rx_merge s now now_upd dv m mg s')
  then show ?case by (auto intro: rx_merge_table_ok)
next
  case (rx_answer s en now_ins dv m mg s')
  then show ?case by (auto intro: rx_answer_table_ok)
next
  case (resolve_enter s en now mok nif p dat ln pr s')
  then show ?case by (auto intro: resolve_enter_table_ok)
next
  case (resolve_woken s i ret r h s')
  then show ?case by (auto intro: resolve_woken_table_ok)
qed

lemma table_size_pos: "0 < ARP_TABLE_SIZE" "Suc 0 < ARP_TABLE_SIZE"
  by (simp_all add: ARP_TABLE_SIZE_def)

lemma select_None_iff:
  "arp_table_select tbl p = None \<longleftrightarrow>
     (\<forall>j < ARP_TABLE_SIZE. \<not> (used (tbl ! j) \<and> pa (tbl ! j) = p))"
  by (simp add: arp_table_select_def select_from_None)

lemma select_SomeD:
  "arp_table_select tbl p = Some i \<Longrightarrow> i < ARP_TABLE_SIZE \<and> used (tbl ! i) \<and> pa (tbl ! i) = p"
  using select_from_Some [of tbl p 0 i] by (simp add: arp_table_select_def)

lemma freespace_SomeD:
  "arp_table_freespace tbl = Some i \<Longrightarrow> i < ARP_TABLE_SIZE \<and> \<not> used (tbl ! i)"
  using freespace_from_Some [of tbl 0 i] by (simp add: arp_table_freespace_def)

lemma freespace_None_iff:
  "arp_table_freespace tbl = None \<longleftrightarrow> (\<forall>j < ARP_TABLE_SIZE. used (tbl ! j))"
  by (simp add: arp_table_freespace_def freespace_from_None)

lemma select_first:
  "used (tbl ! 0) \<Longrightarrow> pa (tbl ! 0) = p \<Longrightarrow> arp_table_select tbl p = Some 0"
  by (simp add: arp_table_select_def arp_table_select_from.simps [of tbl p 0] table_size_pos)

lemma freespace_first:
  "\<not> used (tbl ! 0) \<Longrightarrow> arp_table_freespace tbl = Some 0"
  by (simp add: arp_table_freespace_def arp_table_freespace_from.simps [of tbl 0] table_size_pos)

lemma freespace_second:
  "used (tbl ! 0) \<Longrightarrow> \<not> used (tbl ! Suc 0) \<Longrightarrow> arp_table_freespace tbl = Some (Suc 0)"
  by (simp add: arp_table_freespace_def arp_table_freespace_from.simps [of tbl 0]
      arp_table_freespace_from.simps [of tbl "Suc 0"] table_size_pos)

lemma init_select: "arp_table_select (table (arp_init now)) p = None"
  by (simp add: select_None_iff arp_init_def arp_entry_zero_def)

lemma init_freespace: "arp_table_freespace (table (arp_init now)) = Some 0"
  by (rule freespace_first) (simp add: arp_init_def arp_entry_zero_def table_size_pos)

lemma send_request_returns:
  "\<exists>r s'. arp_send_request en (Some n) (Some t) s = Inr (r, s')"
  by (simp add: arp_send_request_def Let_def)

text \<open>The concrete states are the results of the calls they are named after.\<close>

lemma ex_send_request:
  "arp_send_request ex_env (Some ex_netif) (Some ex_pa) s =
     Inr (0, s\<lparr> tx_log := tx_log s @ [ex_request] \<rparr>)"
  by (simp add: arp_send_request_def Let_def ex_env_def ex_request_def arp_encode_def
      ex_netif_def ex_tx_ok_def sizeof_arp_ethernet_def ETHERNET_ADDR_LEN_def IP_ADDR_LEN_def
      ARP_HRD_ETHERNET_def ETHERNET_TYPE_IP_def ARP_OP_REQUEST_def)

lemma ex_inflight_enter:
  "arp_resolve_enter ex_env 7 True (Some ex_netif) ex_pa None 0 (arp_init 0) =
     Inr (Return ARP_RESOLVE_QUERY None, ex_inflight)"
  by (simp add: arp_resolve_enter_def init_select init_freespace ex_send_request Let_def
      ex_inflight_def)
    (simp add: arp_init_def table_size_pos)

lemma ex_pending_enter:
  "arp_resolve_enter ex_env 7 True (Some ex_netif) ex_pa (Some [0xDE, 0xAD]) 2 (arp_init 0) =
     Inr (Return ARP_RESOLVE_QUERY None, ex_pending)"
  by (simp add: arp_resolve_enter_def init_select init_freespace ex_send_request Let_def
      ex_pending_def)
    (simp add: arp_init_def table_size_pos)

lemma ex_inflight_reachable: "reachable ex_inflight"
  using reachable.resolve_enter [OF reachable.start ex_inflight_enter] .

lemma ex_pending_reachable: "reachable ex_pending"
  using reachable.resolve_enter [OF reachable.start ex_pending_enter] .

lemma ex_pending_entry:
  "table ex_pending ! 0 =
     \<lparr> used = True, pa = ex_pa, ha = replicate 6 0, timestamp = 7,
       data = Some [0xDE, 0xAD], len = 2, netif = Some ex_netif \<rparr>"
  by (simp add: ex_pending_def arp_init_def table_size_pos arp_entry_zero_def ETHERNET_ADDR_LEN_def)

lemma ex_inflight_entry:
  "table ex_inflight ! 0 =
     \<lparr> used = True, pa = ex_pa, ha = replicate 6 0, timestamp = 7,
       data = None, len = 0, netif = Some ex_netif \<rparr>"
  by (simp add: ex_inflight_def arp_init_def table_size_pos arp_entry_zero_def ETHERNET_ADDR_LEN_def)

lemma ex_pending_length: "length (table ex_pending) = ARP_TABLE_SIZE"
  by (simp add: ex_pending_def arp_init_def)

lemma ex_inflight_length: "length (table ex_inflight) = ARP_TABLE_SIZE"
  by (simp add: ex_inflight_def arp_init_def)

text \<open>Byte order and the layout of the message.\<close>

lemma byteswap16_involution: "byteswap16 (byteswap16 v) = v"
  unfolding byteswap16_def
  by (rule bit_word_eqI) (auto simp: bit_simps)

lemma hton16_ntoh16: "hton16 e (ntoh16 e x) = x"
  by (cases e) (simp_all add: hton16_def ntoh16_def byteswap16_involution)

lemma ucast_drop_word_cat16: "ucast (drop_bit 8 (word_cat (a::u8) (b::u8) :: u16)) = a"
  by (rule bit_word_eqI) (auto simp: bit_simps)

lemma ucast_word_cat16: "ucast (word_cat (a::u8) (b::u8) :: u16) = b"
  by (rule bit_word_eqI) (auto simp: bit_simps)

lemma ucast_drop_word_cat32: "ucast (drop_bit 16 (word_cat (a::u16) (b::u16) :: 32 word)) = a"
  by (rule bit_word_eqI) (auto simp: bit_simps)

lemma ucast_word_cat32: "ucast (word_cat (a::u16) (b::u16) :: 32 word) = b"
  by (rule bit_word_eqI) (auto simp: bit_simps)

lemma store16_load16: "store16 e (load16 e bs off) = [bs ! off, bs ! (off + 1)]"
  by (cases e) (simp_all add: store16_def load16_def ucast_drop_word_cat16 ucast_word_cat16)

lemma store32_load32:
  "store32 e (load32 e bs off) = [bs ! off, bs ! (off + 1), bs ! (off + 2), bs ! (off + 3)]"
  by (cases e)
    (simp_all add: store32_def load32_def ucast_drop_word_cat32 ucast_word_cat32 store16_load16
      numeral_3_eq_3 add.commute)

lemma list28:
  assumes "length (bs :: 'a list) = 28"
  shows "bs = [bs ! 0, bs ! 1, bs ! 2, bs ! 3, bs ! 4, bs ! 5, bs ! 6, bs ! 7, bs ! 8, bs ! 9,
               bs ! 10, bs ! 11, bs ! 12, bs ! 13, bs ! 14, bs ! 15, bs ! 16, bs ! 17, bs ! 18,
               bs ! 19, bs ! 20, bs ! 21, bs ! 22, bs ! 23, bs ! 24, bs ! 25, bs ! 26, bs ! 27]"
proof -
  have "bs = map ((!) bs) [0..<28]"
    using assms by (metis map_nth)
  also have "[0..<28] = [0, 1, 2, 3, 4, 5, 6, 7, 8, 9, 10, 11, 12, 13, 14, 15, 16, 17, 18, 19,
     20, 21, 22, 23, 24, 25, 26, 27::nat]"
    by (simp add: upt_rec)
  finally show ?thesis by simp
qed

lemma take6_drop:
  assumes "k + 6 \<le> length bs"
  shows "take 6 (drop k bs) =
           [bs ! k, bs ! (k + 1), bs ! (k + 2), bs ! (k + 3), bs ! (k + 4), bs ! (k + 5)]"
proof -
  let ?ys = "drop k bs"
  have len: "6 \<le> length ?ys" using assms by simp
  have "take 6 ?ys = take 6 (map ((!) ?ys) [0..<length ?ys])"
    by (simp only: map_nth)
  also have "\<dots> = map ((!) ?ys) [0..<6]"
    using len by (simp add: take_map)
  also have "[0..<6] = [0, 1, 2, 3, 4, 5::nat]"
    by (simp add: upt_rec)
  finally show ?thesis using assms by simp
qed

lemma ntoh16_load16: "ntoh16 e (load16 e bs off) = word_cat (bs ! off) (bs ! (off + 1))"
proof (cases e)
  case LittleEndian
  have "byteswap16 (word_cat (b :: u8) (a :: u8)) = word_cat a b" for a b
    unfolding byteswap16_def by (rule bit_word_eqI) (auto simp: bit_simps)
  with LittleEndian show ?thesis by (simp add: ntoh16_def load16_def)
next
  case BigEndian
  then show ?thesis by (simp add: ntoh16_def load16_def)
qed

lemma ex_arp_request_decode:
  "arp_decode e ex_arp_request =
     \<lparr> f_hrd = 1, f_pro = 0x0800, f_hln = 6, f_pln = 4, f_op = 1,
       f_sha = [0x02, 0, 0, 0, 0, 0x07], f_spa = load32 e ex_arp_request 14,
       f_tha = [0, 0, 0, 0, 0, 0], f_tpa = load32 e ex_arp_request 24 \<rparr>"
  by (simp add: arp_decode_def arp_ethernet_of_bytes_def Let_def ntoh16_load16)
    (simp add: ex_arp_request_def word_cat_eq)

lemma u8_unat_eq: "unat (w :: u8) = 6 \<longleftrightarrow> w = 6" "unat (w :: u8) = 4 \<longleftrightarrow> w = 4"
  by (simp_all add: word_unat_eq_iff)

lemma arp_ethernet_of_bytes_take:
  "28 \<le> length bs \<Longrightarrow> arp_ethernet_of_bytes e (take 28 bs) = arp_ethernet_of_bytes e bs"
  by (cases e) (simp_all add: arp_ethernet_of_bytes_def load16_def load32_def drop_take)

text \<open>The sweep: what it leaves alone, what it clears, and its log.\<close>

lemma sweeps_ok_init: "sweeps_ok (arp_init now)"
  by (simp add: sweeps_ok_def arp_init_def)

lemma sweeps_ok_same:
  "sweeps_ok s \<Longrightarrow> sweeps s' = sweeps s \<Longrightarrow> sweep_timestamp s' = sweep_timestamp s \<Longrightarrow>
   sweeps_ok s'"
  by (simp add: sweeps_ok_def)

lemma sweeps_ok_sweep:
  assumes "sweeps_ok s" "10 < now - sweep_timestamp s"
    "sweeps s' = sweeps s @ [now]" "sweep_timestamp s' = now"
  shows "sweeps_ok s'"
proof -
  have old: "sweeps s ! i \<le> sweep_timestamp s" if "i < length (sweeps s)" for i
    using assms(1) that by (simp add: sweeps_ok_def)
  have gap: "10 < sweeps s ! j - sweeps s ! i" if "i < j" "j < length (sweeps s)" for i j
    using assms(1) that by (simp add: sweeps_ok_def)
  have "10 < sweeps s' ! j - sweeps s' ! i" if "i < j" "j < length (sweeps s')" for i j
  proof (cases "j < length (sweeps s)")
    case True
    with that gap show ?thesis by (simp add: assms(3) nth_append)
  next
    case False
    with that have j: "j = length (sweeps s)" and i: "i < length (sweeps s)"
      by (simp_all add: assms(3))
    with old [OF i] assms(2) show ?thesis by (simp add: assms(3) nth_append)
  qed
  moreover have "sweeps s' ! i \<le> sweep_timestamp s'" if "i < length (sweeps s')" for i
  proof (cases "i < length (sweeps s)")
    case True
    with old [OF True] assms(2) show ?thesis by (simp add: assms(3,4) nth_append)
  next
    case False
    with that have "i = length (sweeps s)" by (simp add: assms(3))
    then show ?thesis by (simp add: assms(3,4))
  qed
  ultimately show ?thesis by (simp add: sweeps_ok_def)
qed

lemma update_frame:
  "arp_table_update now dv p h s = Inr (r, s') \<Longrightarrow>
     sweeps s' = sweeps s \<and> sweep_timestamp s' = sweep_timestamp s \<and>
     length (table s') = length (table s) \<and>
     (\<forall>k. used (table s' ! k) = used (table s ! k))"
proof (cases "arp_table_select (table s) p")
  case None
  assume "arp_table_update now dv p h s = Inr (r, s')"
  with None show ?thesis by (simp add: arp_table_update_def)
next
  case (Some i)
  assume u: "arp_table_update now dv p h s = Inr (r, s')"
  have "used (xs[i := e] ! k) = used (xs ! k)" if "used e = used (xs ! i)"
    for xs :: "arp_entry list" and e k
    using that by (cases "i < length xs") (auto simp: nth_list_update list_update_beyond)
  with u Some show ?thesis
    by (auto simp: arp_table_update_def Let_def split: option.splits)
qed

lemma insert_frame:
  "sweeps (snd (arp_table_insert now p h s)) = sweeps s \<and>
   sweep_timestamp (snd (arp_table_insert now p h s)) = sweep_timestamp s"
  by (simp add: arp_table_insert_def split: option.splits)

lemma patrol_from_nth:
  "j < length (table s) \<Longrightarrow>
     table (arp_table_patrol_from i s) ! j =
       (if i \<le> j \<and> j < ARP_TABLE_SIZE \<and> used (table s ! j) \<and>
           ARP_TABLE_TIMEOUT_SEC < sweep_timestamp s - timestamp (table s ! j)
        then arp_entry_clear (table s ! j) else table s ! j)"
proof (induction i s rule: arp_table_patrol_from.induct)
  case (1 i s)
  show ?case
  proof (cases "i < ARP_TABLE_SIZE")
    case True
    let ?s = "(if used (table s ! i) \<and>
              sweep_timestamp s - timestamp (table s ! i) > ARP_TABLE_TIMEOUT_SEC
           then s\<lparr> table := (table s)[i := arp_entry_clear (table s ! i)],
                   broadcasts := broadcasts s @ [i] \<rparr>
           else s)"
    have unf: "arp_table_patrol_from i s = arp_table_patrol_from (Suc i) ?s"
      using True by (simp add: arp_table_patrol_from.simps [of i s])
    have len: "j < length (table ?s)" using "1.prems" by simp
    have ts: "sweep_timestamp ?s = sweep_timestamp s" by simp
    have IH: "table (arp_table_patrol_from (Suc i) ?s) ! j =
       (if Suc i \<le> j \<and> j < ARP_TABLE_SIZE \<and> used (table ?s ! j) \<and>
           ARP_TABLE_TIMEOUT_SEC < sweep_timestamp ?s - timestamp (table ?s ! j)
        then arp_entry_clear (table ?s ! j) else table ?s ! j)"
      using "1.IH" [OF True len] .
    show ?thesis
    proof (cases "j = i")
      case True
      with \<open>i < ARP_TABLE_SIZE\<close> "1.prems" show ?thesis
        unfolding unf IH by simp
    next
      case False
      then have "table ?s ! j = table s ! j" by simp
      with False show ?thesis unfolding unf IH ts by auto
    qed
  next
    case False
    then show ?thesis by (auto simp: arp_table_patrol_from.simps [of i s])
  qed
qed

lemma rx_merge_sweeps:
  assumes "arp_rx_merge now now_upd dv m s = Inr (mg, s')"
  shows "if 10 < now - sweep_timestamp s
         then sweeps s' = sweeps s @ [now] \<and> sweep_timestamp s' = now \<and>
              (\<forall>k. k < ARP_TABLE_SIZE \<and> k < length (table s) \<and> used (table s ! k) \<and>
                   ARP_TABLE_TIMEOUT_SEC < now - timestamp (table s ! k)
                   \<longrightarrow> \<not> used (table s' ! k))
         else sweeps s' = sweeps s \<and> sweep_timestamp s' = sweep_timestamp s"
proof (cases "10 < now - sweep_timestamp s")
  case True
  let ?s0 = "s\<lparr> sweep_timestamp := now, sweeps := sweeps s @ [now] \<rparr>"
  let ?s1 = "arp_table_patrol ?s0"
  obtain r where u: "arp_table_update now_upd dv (spa m) (sha m) ?s1 = Inr (r, s')"
    using assms True by (auto simp: arp_rx_merge_def split: sum.splits)
  have f: "sweeps s' = sweeps ?s1" "sweep_timestamp s' = sweep_timestamp ?s1"
    "\<And>k. used (table s' ! k) = used (table ?s1 ! k)"
    using update_frame [OF u] by simp_all
  have p: "sweeps ?s1 = sweeps s @ [now]" "sweep_timestamp ?s1 = now"
    using patrol_from_frame [of 0 ?s0] by (simp_all add: arp_table_patrol_def)
  have "\<not> used (table ?s1 ! k)"
    if "k < ARP_TABLE_SIZE" "k < length (table s)" "used (table s ! k)"
      "ARP_TABLE_TIMEOUT_SEC < now - timestamp (table s ! k)" for k
    using that patrol_from_nth [of k ?s0 0]
    by (simp add: arp_table_patrol_def arp_entry_clear_def Let_def)
  with True f p show ?thesis by simp
next
  case False
  then obtain r where u: "arp_table_update now_upd dv (spa m) (sha m) s = Inr (r, s')"
    using assms by (auto simp: arp_rx_merge_def split: sum.splits)
  with False update_frame [OF u] show ?thesis by simp
qed

lemma rx_answer_sweeps:
  assumes "arp_rx_answer en now_ins dv m mg s = Inr s'"
  shows "sweeps s' = sweeps s \<and> sweep_timestamp s' = sweep_timestamp s"
  using assms insert_frame [of now_ins "spa m" "sha m" s]
  by (auto simp: arp_rx_answer_def Let_def split: option.splits if_splits sum.splits
      dest!: send_reply_table)

lemma resolve_enter_sweeps:
  assumes "arp_resolve_enter en now mok nif p dat ln s = Inr (pr, s')"
  shows "sweeps s' = sweeps s \<and> sweep_timestamp s' = sweep_timestamp s"
  using assms
  by (auto simp: arp_resolve_enter_def Let_def split: option.splits if_splits sum.splits
      dest!: send_request_table)

lemma resolve_woken_sweeps:
  assumes "arp_resolve_woken ret i s = (r, h, s')"
  shows "sweeps s' = sweeps s \<and> sweep_timestamp s' = sweep_timestamp s"
  using assms by (auto simp: arp_resolve_woken_def Let_def split: if_splits)

lemma reachable_sweeps_ok: "reachable s \<Longrightarrow> sweeps_ok s"
proof (induction rule: reachable.induct)
  case (start now)
  show ?case by (rule sweeps_ok_init)
next
  case (rx_merge s now now_upd dv m mg s')
  from rx_merge_sweeps [OF rx_merge.hyps(2)] rx_merge.IH show ?case
    by (cases "10 < now - sweep_timestamp s") (auto intro: sweeps_ok_sweep sweeps_ok_same)
next
  case (rx_answer s en now_ins dv m mg s')
  from rx_answer_sweeps [OF rx_answer.hyps(2)] rx_answer.IH show ?case
    by (auto intro: sweeps_ok_same)
next
  case (resolve_enter s en now mok nif p dat ln pr s')
  from resolve_enter_sweeps [OF resolve_enter.hyps(2)] resolve_enter.IH show ?case
    by (auto intro: sweeps_ok_same)
next
  case (resolve_woken s i ret r h s')
  from resolve_woken_sweeps [OF resolve_woken.hyps(3)] resolve_woken.IH show ?case
    by (auto intro: sweeps_ok_same)
qed

lemma update_returns:
  assumes "table_ok s"
  shows "\<exists>r s'. arp_table_update now dv p h s = Inr (r, s')"
proof (cases "arp_table_select (table s) p")
  case None
  then show ?thesis by (simp add: arp_table_update_def)
next
  case (Some i)
  then have "i < ARP_TABLE_SIZE" using select_SomeD by blast
  with assms have "data (table s ! i) \<noteq> None \<longrightarrow> netif (table s ! i) \<noteq> None"
    by (simp add: table_ok_def entry_ok_def)
  with Some show ?thesis
    by (auto simp: arp_table_update_def Let_def split: option.splits)
qed

lemma rx_merge_returns:
  assumes "table_ok s"
  shows "\<exists>mg s'. arp_rx_merge now now_upd dv m s = Inr (mg, s')"
proof -
  let ?s1 = "(if now - sweep_timestamp s > 10
                then arp_table_patrol (s\<lparr> sweep_timestamp := now, sweeps := sweeps s @ [now] \<rparr>)
                else s)"
  have "table_ok (s\<lparr> sweep_timestamp := now, sweeps := sweeps s @ [now] \<rparr>)"
    using assms by (simp add: table_ok_def)
  then have "table_ok ?s1"
    using assms by (simp add: arp_table_patrol_def patrol_from_table_ok)
  from update_returns [OF this, of now_upd dv "spa m" "sha m"] show ?thesis
    by (auto simp: arp_rx_merge_def Let_def)
qed

lemma patrol_from_idle:
  "(\<forall>k < ARP_TABLE_SIZE. \<not> used (table s ! k)) \<Longrightarrow> arp_table_patrol_from i s = s"
proof (induction i s rule: arp_table_patrol_from.induct)
  case (1 i s)
  show ?case
  proof (cases "i < ARP_TABLE_SIZE")
    case True
    with "1.prems" have nu: "\<not> used (table s ! i)" by simp
    with True "1.IH" "1.prems" have "arp_table_patrol_from (Suc i) s = s" by simp
    with True nu show ?thesis by (simp add: arp_table_patrol_from.simps [of i s])
  next
    case False
    then show ?thesis by (simp add: arp_table_patrol_from.simps [of i s])
  qed
qed

lemma ex_swept1_merge:
  "arp_rx_merge 11 12 ex_dev m (arp_init 0) = Inr (0, ex_swept1)"
proof -
  let ?s0 = "(arp_init 0)\<lparr> sweep_timestamp := 11, sweeps := sweeps (arp_init 0) @ [11] \<rparr>"
  have e: "?s0 = ex_swept1" by (simp add: ex_swept1_def arp_init_def)
  have "arp_table_patrol ?s0 = ?s0"
    unfolding arp_table_patrol_def
    by (rule patrol_from_idle) (simp add: arp_init_def arp_entry_zero_def)
  then have p: "arp_table_patrol ?s0 = ex_swept1" by (simp only: e)
  have sel: "arp_table_select (table ex_swept1) (spa m) = None"
    using init_select [of 0 "spa m"] by (simp add: ex_swept1_def)
  have "arp_rx_merge 11 12 ex_dev m (arp_init 0) =
      (case arp_table_update 12 ex_dev (spa m) (sha m) (arp_table_patrol ?s0) of
         Inl a \<Rightarrow> Inl a
       | Inr (r, s2) \<Rightarrow> Inr (if r = 0 then 1 else 0, s2))"
    by (simp add: arp_rx_merge_def arp_init_def)
  also have "\<dots> = Inr (0, ex_swept1)"
    unfolding p by (simp add: arp_table_update_def sel)
  finally show ?thesis .
qed

lemma ex_swept2_merge:
  "arp_rx_merge 22 23 ex_dev m ex_swept1 = Inr (0, ex_swept2)"
proof -
  let ?s0 = "ex_swept1\<lparr> sweep_timestamp := 22, sweeps := sweeps ex_swept1 @ [22] \<rparr>"
  have e: "?s0 = ex_swept2" by (simp add: ex_swept1_def ex_swept2_def arp_init_def)
  have "arp_table_patrol ?s0 = ?s0"
    unfolding arp_table_patrol_def
    by (rule patrol_from_idle) (simp add: ex_swept1_def arp_init_def arp_entry_zero_def)
  then have p: "arp_table_patrol ?s0 = ex_swept2" by (simp only: e)
  have sel: "arp_table_select (table ex_swept2) (spa m) = None"
    using init_select [of 0 "spa m"] by (simp add: ex_swept2_def)
  have "arp_rx_merge 22 23 ex_dev m ex_swept1 =
      (case arp_table_update 23 ex_dev (spa m) (sha m) (arp_table_patrol ?s0) of
         Inl a \<Rightarrow> Inl a
       | Inr (r, s2) \<Rightarrow> Inr (if r = 0 then 1 else 0, s2))"
    by (simp add: arp_rx_merge_def ex_swept1_def)
  also have "\<dots> = Inr (0, ex_swept2)"
    unfolding p by (simp add: arp_table_update_def sel)
  finally show ?thesis .
qed

lemma ex_swept2_reachable: "reachable ex_swept2"
  using reachable.rx_merge [OF reachable.rx_merge [OF reachable.start ex_swept1_merge]
      ex_swept2_merge] .

text \<open>The resolver: the result of the transmit is not looked at, a miss creates the entry,
  and a hit that returns at once returns a link address that is not all zero.\<close>

lemma send_request_tx_irrelevant:
  "map_sum id snd (arp_send_request (en\<lparr> tx := t \<rparr>) nif tgt s) =
   map_sum id snd (arp_send_request en nif tgt s)"
  by (simp add: arp_send_request_def Let_def split: option.splits)

lemma resolve_enter_tx_irrelevant:
  "arp_resolve_enter (en\<lparr> tx := t \<rparr>) now mok nif p dat ln s =
   arp_resolve_enter en now mok nif p dat ln s"
proof -
  have "(case arp_send_request (en\<lparr> tx := t \<rparr>) nif tgt s0 of
           Inl a \<Rightarrow> Inl a | Inr (r, s1) \<Rightarrow> Inr (f s1)) =
        (case arp_send_request en nif tgt s0 of
           Inl a \<Rightarrow> (Inl a :: abort + (progress \<times> arp_state)) | Inr (r, s1) \<Rightarrow> Inr (f s1))"
    for tgt s0 and f :: "arp_state \<Rightarrow> progress \<times> arp_state"
    using send_request_tx_irrelevant [where en = en and t = t and nif = nif and tgt = tgt and s = s0]
    by (auto split: sum.splits)
  then show ?thesis
    unfolding arp_resolve_enter_def Let_def by (simp split: option.splits)
qed

lemma ex_inflight_resolve:
  "arp_resolve ex_env 7 True [] (Some ex_netif) ex_pa None 0 (arp_init 0) =
     Inr (ARP_RESOLVE_QUERY, None, ex_inflight)"
  by (simp add: arp_resolve_def ex_inflight_enter)

lemma ex_inflight_select: "arp_table_select (table ex_inflight) ex_pa = Some 0"
  by (rule select_first) (simp_all add: ex_inflight_entry)

lemma ex_inflight_wait:
  "arp_resolve_enter ex_env 8 True (Some ex_netif) ex_pa None 0 ex_inflight =
     Inr (Wait 0, ex_spurious)"
  by (simp add: arp_resolve_enter_def ex_inflight_select ex_inflight_entry
      ETHERNET_ADDR_ANY_def ex_send_request ex_spurious_def)
    (simp add: ex_inflight_def)

lemma resolve_enter_found_nonzero:
  assumes "arp_resolve_enter en now mok nif p dat ln s = Inr (Return ARP_RESOLVE_FOUND h, s')"
  shows "\<exists>a. h = Some a \<and> a \<noteq> ETHERNET_ADDR_ANY"
  using assms
  by (auto simp: arp_resolve_enter_def Let_def ARP_RESOLVE_FOUND_def ARP_RESOLVE_ERROR_def
      ARP_RESOLVE_QUERY_def split: option.splits if_splits sum.splits)

lemma resolve_enter_miss:
  assumes "arp_table_select (table s) p = None"
    and "arp_table_freespace (table s) = Some i"
  shows "\<exists>s'. arp_resolve_enter en now mok (Some n) p None ln s =
                 Inr (Return ARP_RESOLVE_QUERY None, s') \<and>
              table s' = (table s)[i := (table s ! i)
                \<lparr> used := True, pa := p, timestamp := now, netif := Some n \<rparr>] \<and>
              broadcasts s' = broadcasts s"
proof -
  let ?s1 = "s\<lparr> table := (table s)[i := (table s ! i)
                \<lparr> used := True, pa := p, timestamp := now, netif := Some n \<rparr>] \<rparr>"
  obtain r s' where sr: "arp_send_request en (Some n) (Some p) ?s1 = Inr (r, s')"
    using send_request_returns by blast
  with send_request_table [OF sr] assms show ?thesis
    by (simp add: arp_resolve_enter_def Let_def)
qed

lemma send_reply_returns:
  "\<exists>r s'. arp_send_reply en (Some n) (Some th) (Some t) dst s = Inr (r, s') \<and>
          table s' = table s \<and> broadcasts s' = broadcasts s"
  by (simp add: arp_send_reply_def Let_def)

lemma send_reply_log:
  "\<exists>r c. arp_send_reply en (Some n) (Some th) (Some t) dst s =
            Inr (r, s\<lparr> tx_log := tx_log s @ [c] \<rparr>) \<and>
          tx_dev c = dev n \<and> tx_type c = ETHERNET_TYPE_ARP \<and> tx_dst c = dst"
  by (simp add: arp_send_reply_def Let_def) (rule exI, rule conjI, rule refl, simp)

lemma ex_arp_request_struct:
  "arp_ethernet_of_bytes LittleEndian ex_arp_request =
     \<lparr> hdr = \<lparr> hrd = 0x0100, pro = 0x0008, hln = 6, pln = 4, op = 0x0100 \<rparr>,
       sha = [0x02, 0, 0, 0, 0, 0x07], spa = ex_spa, tha = [0, 0, 0, 0, 0, 0],
       tpa = unicast ex_netif \<rparr>"
  by (simp add: arp_ethernet_of_bytes_def load16_def load32_def ex_arp_request_def word_cat_eq
      ex_spa_def ex_netif_def)

text \<open>Every entry the sweep clears is broadcast on.\<close>

lemma patrol_broadcasts_mono:
  "set (broadcasts s) \<subseteq> set (broadcasts (arp_table_patrol_from i s))"
proof (induction i s rule: arp_table_patrol_from.induct)
  case (1 i s)
  let ?s = "(if used (table s ! i) \<and>
            sweep_timestamp s - timestamp (table s ! i) > ARP_TABLE_TIMEOUT_SEC
         then s\<lparr> table := (table s)[i := arp_entry_clear (table s ! i)],
                 broadcasts := broadcasts s @ [i] \<rparr>
         else s)"
  show ?case
  proof (cases "i < ARP_TABLE_SIZE")
    case True
    then have unf: "arp_table_patrol_from i s = arp_table_patrol_from (Suc i) ?s"
      by (simp add: arp_table_patrol_from.simps [of i s])
    have "set (broadcasts s) \<subseteq> set (broadcasts ?s)" by auto
    also have "\<dots> \<subseteq> set (broadcasts (arp_table_patrol_from (Suc i) ?s))"
      using "1.IH" [OF True] .
    finally show ?thesis unfolding unf .
  next
    case False
    then show ?thesis by (simp add: arp_table_patrol_from.simps [of i s])
  qed
qed

lemma patrol_clear_broadcasts:
  "j < length (table s) \<Longrightarrow> used (table s ! j) \<Longrightarrow>
   \<not> used (table (arp_table_patrol_from i s) ! j) \<Longrightarrow>
   j \<in> set (broadcasts (arp_table_patrol_from i s))"
proof (induction i s rule: arp_table_patrol_from.induct)
  case (1 i s)
  let ?s = "(if used (table s ! i) \<and>
            sweep_timestamp s - timestamp (table s ! i) > ARP_TABLE_TIMEOUT_SEC
         then s\<lparr> table := (table s)[i := arp_entry_clear (table s ! i)],
                 broadcasts := broadcasts s @ [i] \<rparr>
         else s)"
  show ?case
  proof (cases "i < ARP_TABLE_SIZE")
    case True
    then have unf: "arp_table_patrol_from i s = arp_table_patrol_from (Suc i) ?s"
      by (simp add: arp_table_patrol_from.simps [of i s])
    show ?thesis
    proof (cases "used (table ?s ! j)")
      case used: True
      have "j < length (table ?s)" using "1.prems"(1) by simp
      from "1.IH" [OF True this used] "1.prems"(3) show ?thesis
        unfolding unf by simp
    next
      case False
      with "1.prems"(1,2) have "j \<in> set (broadcasts ?s)"
        by (cases "j = i") (auto split: if_splits)
      with patrol_broadcasts_mono [of ?s "Suc i"] show ?thesis unfolding unf by auto
    qed
  next
    case False
    with "1.prems" show ?thesis by (simp add: arp_table_patrol_from.simps [of i s])
  qed
qed

text \<open>Uniqueness is kept by every critical section but the insert of \<^verbatim>\<open>arp_rx\<close>, which
  keeps it when no entry for the address has appeared since the update found none: by
  \<^verbatim>\<open>arp_rx\<close> as a whole when no other thread runs between its two critical sections.\<close>

lemma unique_pa_shrink:
  assumes "unique_pa tbl"
    and "\<And>k. k < ARP_TABLE_SIZE \<Longrightarrow> used (tbl' ! k) \<Longrightarrow>
           used (tbl ! k) \<and> pa (tbl' ! k) = pa (tbl ! k)"
  shows "unique_pa tbl'"
  unfolding unique_pa_def
proof (intro allI impI)
  fix i j
  assume a: "i < ARP_TABLE_SIZE \<and> j < ARP_TABLE_SIZE \<and> used (tbl' ! i) \<and> used (tbl' ! j) \<and>
            pa (tbl' ! i) = pa (tbl' ! j)"
  then have "used (tbl ! i) \<and> pa (tbl' ! i) = pa (tbl ! i)"
    and "used (tbl ! j) \<and> pa (tbl' ! j) = pa (tbl ! j)"
    using assms(2) by blast+
  with a assms(1) show "i = j" unfolding unique_pa_def by metis
qed

lemma unique_pa_add:
  assumes "unique_pa tbl" and "arp_table_select tbl p = None"
    and "i < length tbl" and "pa e = p"
  shows "unique_pa (tbl[i := e])"
  unfolding unique_pa_def
proof (intro allI impI)
  fix j k
  assume a: "j < ARP_TABLE_SIZE \<and> k < ARP_TABLE_SIZE \<and> used (tbl[i := e] ! j) \<and>
            used (tbl[i := e] ! k) \<and> pa (tbl[i := e] ! j) = pa (tbl[i := e] ! k)"
  have none: "\<not> (used (tbl ! n) \<and> pa (tbl ! n) = p)" if "n < ARP_TABLE_SIZE" for n
    using assms(2) that by (simp add: select_None_iff)
  show "j = k"
  proof (cases "j = i")
    case True
    show ?thesis
    proof (rule ccontr)
      assume "j \<noteq> k"
      with True a assms(3,4) have "used (tbl ! k) \<and> pa (tbl ! k) = p" by auto
      with none a show False by blast
    qed
  next
    case False
    show ?thesis
    proof (cases "k = i")
      case True
      with False a assms(3,4) have "used (tbl ! j) \<and> pa (tbl ! j) = p" by auto
      with none a show ?thesis by blast
    next
      case False
      with \<open>j \<noteq> i\<close> a assms(1) show ?thesis unfolding unique_pa_def by auto
    qed
  qed
qed

lemma update_frame_pa:
  assumes "arp_table_update now dv p h s = Inr (r, s')"
  shows "pa (table s' ! k) = pa (table s ! k)"
    and "r \<noteq> 0 \<Longrightarrow> arp_table_select (table s) p = None \<and> s' = s"
proof -
  have upd: "pa (xs[i := e] ! k) = pa (xs ! k)" if "pa e = pa (xs ! i)"
    for xs :: "arp_entry list" and e i
    using that by (cases "i < length xs") (auto simp: nth_list_update list_update_beyond)
  show "pa (table s' ! k) = pa (table s ! k)"
    using assms upd
    by (auto simp: arp_table_update_def Let_def split: option.splits)
  show "r \<noteq> 0 \<Longrightarrow> arp_table_select (table s) p = None \<and> s' = s"
    using assms
    by (auto simp: arp_table_update_def Let_def split: option.splits)
qed

lemma patrol_unique:
  assumes "unique_pa (table s)" and "length (table s) = ARP_TABLE_SIZE"
  shows "unique_pa (table (arp_table_patrol s))"
proof (rule unique_pa_shrink [OF assms(1)])
  fix k
  assume "k < ARP_TABLE_SIZE" and u: "used (table (arp_table_patrol s) ! k)"
  with assms(2) have "k < length (table s)" by simp
  from patrol_from_nth [OF this, of 0] u
  show "used (table s ! k) \<and> pa (table (arp_table_patrol s) ! k) = pa (table s ! k)"
    by (auto simp: arp_table_patrol_def arp_entry_clear_def Let_def split: if_splits)
qed

lemma rx_merge_unique:
  assumes "unique_pa (table s)" and "length (table s) = ARP_TABLE_SIZE"
    and "arp_rx_merge now now_upd dv m s = Inr (mg, s')"
  shows "unique_pa (table s') \<and> length (table s') = ARP_TABLE_SIZE \<and>
         (mg = 0 \<longrightarrow> arp_table_select (table s') (spa m) = None)"
proof -
  let ?s0 = "s\<lparr> sweep_timestamp := now, sweeps := sweeps s @ [now] \<rparr>"
  let ?s1 = "(if now - sweep_timestamp s > 10 then arp_table_patrol ?s0 else s)"
  have "unique_pa (table (arp_table_patrol ?s0))"
    using assms(1,2) by (intro patrol_unique) simp_all
  then have u1: "unique_pa (table ?s1)" using assms(1) by simp
  have l1: "length (table ?s1) = ARP_TABLE_SIZE"
    using assms(2) patrol_from_frame [of 0 ?s0] by (simp add: arp_table_patrol_def)
  obtain r where u: "arp_table_update now_upd dv (spa m) (sha m) ?s1 = Inr (r, s')"
    and mg: "mg = (if r = 0 then 1 else 0)"
    using assms(3) by (auto simp: arp_rx_merge_def Let_def split: sum.splits)
  have "unique_pa (table s')"
    using u1 update_frame [OF u] update_frame_pa(1) [OF u]
    by (intro unique_pa_shrink [OF u1]) simp
  moreover have "length (table s') = ARP_TABLE_SIZE"
    using update_frame [OF u] l1 by simp
  moreover have "arp_table_select (table s') (spa m) = None" if "mg = 0"
    using that mg update_frame_pa(2) [OF u] by (auto split: if_splits)
  ultimately show ?thesis by blast
qed

lemma insert_unique:
  assumes "unique_pa (table s)" and "length (table s) = ARP_TABLE_SIZE"
    and "arp_table_select (table s) p = None"
  shows "unique_pa (table (snd (arp_table_insert now p h s)))"
proof (cases "arp_table_freespace (table s)")
  case None
  with assms(1) show ?thesis by (simp add: arp_table_insert_def)
next
  case (Some i)
  then have "i < length (table s)" using freespace_SomeD assms(2) by auto
  with assms Some show ?thesis
    by (simp add: arp_table_insert_def unique_pa_add)
qed

lemma arp_rx_alone_unique:
  assumes "unique_pa (table s)" and "length (table s) = ARP_TABLE_SIZE"
    and "arp_rx en now now_upd now_ins (\<lambda>s. s) pkt dv s = Inr s'"
  shows "unique_pa (table s')"
proof (cases "arp_rx en now now_upd now_ins (\<lambda>s. s) pkt dv s = Inr s \<and> s' = s")
  case True
  with assms(1) show ?thesis by simp
next
  case False
  let ?m = "arp_ethernet_of_bytes (endian en) pkt"
  from False assms(3) obtain mg s1 where
    mrg: "arp_rx_merge now now_upd dv ?m s = Inr (mg, s1)"
    and ans: "arp_rx_answer en now_ins dv ?m mg s1 = Inr s'"
    by (auto simp: arp_rx_def Let_def split: if_splits sum.splits)
  from rx_merge_unique [OF assms(1,2) mrg]
  have u1: "unique_pa (table s1)" and l1: "length (table s1) = ARP_TABLE_SIZE"
    and sel: "mg = 0 \<Longrightarrow> arp_table_select (table s1) (spa ?m) = None"
    by simp_all
  let ?s2 = "(if mg = 0 then snd (arp_table_insert now_ins (spa ?m) (sha ?m) s1) else s1)"
  have u2: "unique_pa (table ?s2)"
    using u1 l1 sel by (simp add: insert_unique)
  from ans have "table s' = table s1 \<or> table s' = table ?s2"
    by (auto simp: arp_rx_answer_def Let_def split: option.splits if_splits sum.splits
        dest!: send_reply_table)
  with u1 u2 show ?thesis by auto
qed

lemma resolve_enter_unique:
  assumes "unique_pa (table s)" and "length (table s) = ARP_TABLE_SIZE"
    and "arp_resolve_enter en now mok nif p dat ln s = Inr (pr, s')"
  shows "unique_pa (table s')"
proof (cases "arp_table_select (table s) p")
  case (Some i)
  with assms(1,3) show ?thesis
    by (auto simp: arp_resolve_enter_def split: if_splits sum.splits dest!: send_request_table)
next
  case None
  show ?thesis
  proof (cases "arp_table_freespace (table s)")
    case None
    with assms(1,3) \<open>arp_table_select (table s) p = None\<close> show ?thesis
      by (simp add: arp_resolve_enter_def)
  next
    case (Some i)
    then have i: "i < length (table s)" "\<not> used (table s ! i)"
      using freespace_SomeD assms(2) by auto
    let ?e = "table s ! i"
    let ?e1 = "(case dat of None \<Rightarrow> ?e | Some d \<Rightarrow> ?e\<lparr> data := Some (take ln d), len := ln \<rparr>)"
    let ?e2 = "?e1\<lparr> used := True, pa := p, timestamp := now, netif := nif \<rparr>"
    have a: "unique_pa ((table s)[i := ?e2])"
      using assms(1) None i(1) by (intro unique_pa_add) simp_all
    have b: "unique_pa ((table s)[i := ?e\<lparr> data := None \<rparr>])"
    proof (rule unique_pa_shrink [OF assms(1)])
      fix k
      assume "k < ARP_TABLE_SIZE" "used ((table s)[i := ?e\<lparr> data := None \<rparr>] ! k)"
      then show "used (table s ! k) \<and>
          pa ((table s)[i := ?e\<lparr> data := None \<rparr>] ! k) = pa (table s ! k)"
        using i by (cases "k = i") auto
    qed
    from assms(3) None Some have
      "table s' = (table s)[i := ?e2] \<or> table s' = (table s)[i := ?e\<lparr> data := None \<rparr>]"
      by (auto simp: arp_resolve_enter_def Let_def split: if_splits sum.splits
          dest!: send_request_table)
    with a b show ?thesis by auto
  qed
qed

lemma resolve_woken_unique:
  assumes "unique_pa (table s)" and "arp_resolve_woken ret i s = (r, h, s')"
  shows "unique_pa (table s')"
proof (rule unique_pa_shrink [OF assms(1)])
  fix k
  assume "k < ARP_TABLE_SIZE" and u: "used (table s' ! k)"
  have "used (xs[i := arp_entry_clear e] ! k) \<Longrightarrow>
      used (xs ! k) \<and> pa (xs[i := arp_entry_clear e] ! k) = pa (xs ! k)"
    for xs :: "arp_entry list" and e
    by (cases "i < length xs"; cases "k = i")
      (auto simp: list_update_beyond arp_entry_clear_def Let_def)
  with assms(2) u show "used (table s ! k) \<and> pa (table s' ! k) = pa (table s ! k)"
    by (auto simp: arp_resolve_woken_def Let_def split: if_splits)
qed

section \<open>The claims\<close>

subsection \<open>C1: resolving an unknown address\<close>

text \<open>C1. For every call \<^verbatim>\<open>arp_resolve(netif, pa, out_ha, NULL, 0)\<close> on a reachable cache
  state in which the lookup of \<open>pa\<close> finds no used entry and the table has a free slot
  (\<open>i\<close>, the first one), the call returns \<^verbatim>\<open>QUERY\<close>, and afterwards entry \<open>i\<close> is used with
  that \<open>pa\<close>, its \<open>ha\<close> is the all-zero link address, it holds no payload (\<^verbatim>\<open>data = NULL\<close>,
  \<^verbatim>\<open>len = 0\<close>), and no other entry is used with that \<open>pa\<close>. The code writes neither \<open>ha\<close>
  nor \<open>data\<close> on this path: the values are those every free slot of a reachable state
  has (\<open>reachable_table_ok\<close>). \<open>select_None_iff\<close> and \<open>freespace_SomeD\<close> say what the two
  lookups mean.\<close>

theorem arp_resolve_unknown_query:
  assumes "reachable s"
    and "arp_table_select (table s) p = None"
    and "arp_table_freespace (table s) = Some i"
  shows "\<exists>s'. arp_resolve en now mok wakes (Some n) p None 0 s = Inr (ARP_RESOLVE_QUERY, None, s') \<and>
           i < ARP_TABLE_SIZE \<and>
           used (table s' ! i) \<and> pa (table s' ! i) = p \<and>
           ha (table s' ! i) = ETHERNET_ADDR_ANY \<and>
           data (table s' ! i) = None \<and> len (table s' ! i) = 0 \<and>
           (\<forall>j < ARP_TABLE_SIZE. used (table s' ! j) \<and> pa (table s' ! j) = p \<longrightarrow> j = i)"
proof -
  from assms(1) have ok: "table_ok s" by (rule reachable_table_ok)
  from assms(3) have i: "i < ARP_TABLE_SIZE" "\<not> used (table s ! i)"
    using freespace_SomeD by auto
  with ok have len: "i < length (table s)" and e: "entry_ok (table s ! i)"
    by (simp_all add: table_ok_def)
  let ?e2 = "(table s ! i)\<lparr> used := True, pa := p, timestamp := now, netif := Some n \<rparr>"
  let ?s1 = "s\<lparr> table := (table s)[i := ?e2] \<rparr>"
  obtain r s' where sr: "arp_send_request en (Some n) (Some p) ?s1 = Inr (r, s')"
    using send_request_returns by blast
  then have tbl: "table s' = (table s)[i := ?e2]"
    using send_request_table [OF sr] by simp
  have res: "arp_resolve en now mok wakes (Some n) p None 0 s = Inr (ARP_RESOLVE_QUERY, None, s')"
    using assms(2,3) sr by (simp add: arp_resolve_def arp_resolve_enter_def Let_def)
  have entry: "table s' ! i = ?e2"
    using tbl len by simp
  have uniq: "j = i" if "j < ARP_TABLE_SIZE" "used (table s' ! j) \<and> pa (table s' ! j) = p" for j
  proof (rule ccontr)
    assume "j \<noteq> i"
    then have "table s' ! j = table s ! j" using tbl by simp
    with that assms(2) show False by (auto simp: select_None_iff)
  qed
  from e i have "ha (table s ! i) = ETHERNET_ADDR_ANY" "data (table s ! i) = None" "len (table s ! i) = 0"
    by (simp_all add: entry_ok_def)
  with entry have props: "used (table s' ! i)" "pa (table s' ! i) = p"
    "ha (table s' ! i) = ETHERNET_ADDR_ANY" "data (table s' ! i) = None" "len (table s' ! i) = 0"
    by simp_all
  from uniq have "\<forall>j < ARP_TABLE_SIZE. used (table s' ! j) \<and> pa (table s' ! j) = p \<longrightarrow> j = i"
    by blast
  with res i(1) props show ?thesis by blast
qed

theorem arp_resolve_unknown_query_witness:
  "reachable (arp_init 0) \<and>
   arp_table_select (table (arp_init 0)) ex_pa = None \<and>
   arp_table_freespace (table (arp_init 0)) = Some 0 \<and>
   (\<exists>s'. arp_resolve ex_env 7 True [] (Some ex_netif) ex_pa None 0 (arp_init 0) =
            Inr (ARP_RESOLVE_QUERY, None, s') \<and>
         0 < ARP_TABLE_SIZE \<and>
         used (table s' ! 0) \<and> pa (table s' ! 0) = ex_pa \<and>
         ha (table s' ! 0) = ETHERNET_ADDR_ANY \<and>
         data (table s' ! 0) = None \<and> len (table s' ! 0) = 0 \<and>
         (\<forall>j < ARP_TABLE_SIZE. used (table s' ! j) \<and> pa (table s' ! j) = ex_pa \<longrightarrow> j = 0))"
  using arp_resolve_unknown_query [OF reachable.start init_select init_freespace,
      of ex_env 7 True "[]" ex_netif]
  by (simp add: reachable.start init_select init_freespace)

subsection \<open>C2: FOUND with the all-zero link address\<close>

text \<open>C2 does not hold of the code. A hit that returns at once copies a link address that
  is not all zero (\<open>resolve_enter_found_nonzero\<close>). But after the wait the code only looks
  at \<open>used\<close> and at the value the wait returned, never at \<open>ha\<close>: a caller that waits on the
  in-flight entry and is woken with 0 while no reply has arrived (a spurious wake-up: the
  other threads did nothing) returns \<^verbatim>\<open>FOUND\<close> and copies 00:00:00:00:00:00. The
  state \<open>ex_inflight\<close> is the one a first \<^verbatim>\<open>arp_resolve\<close> for the address leaves on the empty
  cache (\<open>ex_inflight_resolve\<close>, \<open>ex_inflight_reachable\<close>).\<close>

theorem arp_resolve_found_zero_ha:
  "arp_resolve ex_env 8 True [(id, 0)] (Some ex_netif) ex_pa None 0 ex_inflight =
     Inr (ARP_RESOLVE_FOUND, Some ETHERNET_ADDR_ANY, ex_spurious)"
proof -
  have "table ex_spurious ! 0 = table ex_inflight ! 0" by (simp add: ex_spurious_def)
  then show ?thesis
    by (simp add: arp_resolve_def ex_inflight_wait arp_resolve_woken_def ex_inflight_entry
        EINTR_def ETIMEDOUT_def ETHERNET_ADDR_ANY_def)
qed

subsection \<open>C3: the Clear of a timed-out wait is not signalled\<close>

text \<open>C3 does not hold of the code. The sweep broadcasts on every entry it clears
  (\<open>patrol_clear_broadcasts\<close>), but \<^verbatim>\<open>arp_entry_clear\<close> itself does not, and the resolver
  whose wait times out clears the entry without a broadcast: the entry's \<open>used\<close> flag goes
  from true to false and the list of broadcasts is what it was. The state \<open>ex_inflight\<close> is
  the one a first \<^verbatim>\<open>arp_resolve\<close> for the address leaves on the empty cache
  (\<open>ex_inflight_resolve\<close>, \<open>ex_inflight_reachable\<close>).\<close>

theorem arp_resolve_timeout_clear_silent:
  "arp_resolve ex_env 8 True [(id, ETIMEDOUT)] (Some ex_netif) ex_pa None 0 ex_inflight =
     Inr (ARP_RESOLVE_ERROR, None, ex_timedout) \<and>
   used (table ex_inflight ! 0) \<and> \<not> used (table ex_timedout ! 0) \<and>
   broadcasts ex_timedout = broadcasts ex_inflight"
proof -
  have ts: "table ex_spurious = table ex_inflight" by (simp add: ex_spurious_def)
  have u: "used (table ex_inflight ! 0)" by (simp add: ex_inflight_entry)
  have t: "ex_spurious\<lparr> table := (table ex_inflight)[0 := arp_entry_clear (table ex_inflight ! 0)] \<rparr>
      = ex_timedout"
    by (simp add: ex_spurious_def ex_timedout_def)
  have ne: "ETIMEDOUT \<noteq> EINTR" by (simp add: EINTR_def ETIMEDOUT_def)
  have w: "arp_resolve_woken ETIMEDOUT 0 ex_spurious = (ARP_RESOLVE_ERROR, None, ex_timedout)"
    unfolding arp_resolve_woken_def Let_def ts using u t by simp
  have r: "arp_resolve ex_env 8 True [(id, ETIMEDOUT)] (Some ex_netif) ex_pa None 0 ex_inflight =
     Inr (ARP_RESOLVE_ERROR, None, ex_timedout)"
    using ne by (simp add: arp_resolve_def ex_inflight_wait w)
  have c: "\<not> used (table ex_timedout ! 0)"
    by (simp add: ex_timedout_def ex_inflight_length table_size_pos arp_entry_clear_def Let_def)
  have b: "broadcasts ex_timedout = broadcasts ex_inflight"
    by (simp add: ex_timedout_def)
  from r u c b show ?thesis by (simp only: simp_thms)
qed

subsection \<open>C4: a failed transmit is not reported\<close>

text \<open>C4, as amended. \<^verbatim>\<open>arp_resolve\<close> does not look at what the transmit of its request
  returned: whatever the device's \<^verbatim>\<open>tx\<close> returns, the return code, the address copied out
  and the whole state after the call are the same. So a failure changes nothing in the
  cache, and it changes nothing in the return code either.\<close>

theorem arp_resolve_ignores_tx_result:
  "arp_resolve (en\<lparr> tx := t \<rparr>) now mok wakes nif p dat ln s =
   arp_resolve en now mok wakes nif p dat ln s"
  by (simp add: arp_resolve_def resolve_enter_tx_irrelevant)

theorem arp_resolve_ignores_tx_result_witness:
  "arp_resolve ex_env_txfail 7 True [] (Some ex_netif) ex_pa None 0 (arp_init 0) =
     arp_resolve ex_env 7 True [] (Some ex_netif) ex_pa None 0 (arp_init 0)"
  unfolding ex_env_txfail_def
  using arp_resolve_ignores_tx_result
    [where en = ex_env and t = ex_tx_fails and now = 7 and mok = True and wakes = "[]"
       and nif = "Some ex_netif" and p = ex_pa and dat = None and ln = 0 and s = "arp_init 0"] .

text \<open>C4 as stated fails: with a device whose \<^verbatim>\<open>tx\<close> returns -1, \<^verbatim>\<open>arp_send_request\<close>
  returns -1, and \<^verbatim>\<open>arp_resolve\<close> on the empty cache still returns \<^verbatim>\<open>QUERY\<close>, which is 0,
  and leaves the state a successful transmit leaves.\<close>

theorem arp_resolve_tx_failure_counterexample:
  "tx ex_env_txfail ex_request < 0 \<and>
   arp_send_request ex_env_txfail (Some ex_netif) (Some ex_pa) (arp_init 0) =
     Inr (- 1, (arp_init 0)\<lparr> tx_log := [ex_request] \<rparr>) \<and>
   arp_resolve ex_env_txfail 7 True [] (Some ex_netif) ex_pa None 0 (arp_init 0) =
     Inr (ARP_RESOLVE_QUERY, None, ex_inflight) \<and>
   ARP_RESOLVE_QUERY = 0"
proof -
  have sr: "arp_send_request ex_env_txfail (Some ex_netif) (Some ex_pa) s =
      Inr (- 1, s\<lparr> tx_log := tx_log s @ [ex_request] \<rparr>)" for s
    by (simp add: arp_send_request_def Let_def ex_env_def ex_env_txfail_def ex_request_def
        arp_encode_def ex_netif_def ex_tx_fails_def sizeof_arp_ethernet_def
        ETHERNET_ADDR_LEN_def IP_ADDR_LEN_def ARP_HRD_ETHERNET_def ETHERNET_TYPE_IP_def
        ARP_OP_REQUEST_def)
  have "arp_resolve_enter ex_env_txfail 7 True (Some ex_netif) ex_pa None 0 (arp_init 0) =
      Inr (Return ARP_RESOLVE_QUERY None, ex_inflight)"
    by (simp add: arp_resolve_enter_def init_select init_freespace sr Let_def ex_inflight_def)
      (simp add: arp_init_def table_size_pos)
  then have r: "arp_resolve ex_env_txfail 7 True [] (Some ex_netif) ex_pa None 0 (arp_init 0) =
     Inr (ARP_RESOLVE_QUERY, None, ex_inflight)"
    by (simp add: arp_resolve_def)
  have f: "tx ex_env_txfail ex_request < 0"
    by (simp add: ex_env_txfail_def ex_tx_fails_def)
  have s0: "arp_send_request ex_env_txfail (Some ex_netif) (Some ex_pa) (arp_init 0) =
     Inr (- 1, (arp_init 0)\<lparr> tx_log := [ex_request] \<rparr>)"
    unfolding sr by (simp add: arp_init_def)
  from f s0 r show ?thesis
    by (simp only: ARP_RESOLVE_QUERY_def simp_thms)
qed

subsection \<open>C5: a second used entry for the same address\<close>

text \<open>C5 does not hold of the code. \<^verbatim>\<open>arp_rx\<close> releases the mutex between its update and
  its insert. On the empty cache, the receiving thread finds nothing to merge for the
  sender 10.0.0.7 and unlocks; a caller thread then runs \<^verbatim>\<open>arp_resolve\<close> for 10.0.0.7 and
  creates the entry in slot 0; the receiving thread locks again and inserts 10.0.0.7 in
  slot 1. Both entries are used with the same protocol address. Without a thread in
  between, \<^verbatim>\<open>arp_rx\<close> keeps the entries unique (\<open>arp_rx_alone_unique\<close>), as do the critical
  sections of \<^verbatim>\<open>arp_resolve\<close> (\<open>resolve_enter_unique\<close>, \<open>resolve_woken_unique\<close>).\<close>

theorem arp_rx_insert_duplicates:
  "\<exists>s'. arp_rx ex_env 1 2 3 ex_caller ex_arp_request ex_dev (arp_init 0) = Inr s' \<and>
        used (table s' ! 0) \<and> pa (table s' ! 0) = ex_spa \<and>
        used (table s' ! 1) \<and> pa (table s' ! 1) = ex_spa"
proof -
  let ?m = "arp_ethernet_of_bytes LittleEndian ex_arp_request"
  have m: "spa ?m = ex_spa" "sha ?m = [0x02, 0, 0, 0, 0, 0x07]" "tpa ?m = unicast ex_netif"
    "hdr ?m = \<lparr> hrd = 0x0100, pro = 0x0008, hln = 6, pln = 4, op = 0x0100 \<rparr>"
    by (simp_all add: ex_arp_request_struct)
  have sw: "(0x0100 :: u16) = byteswap16 1" "(0x0008 :: u16) = byteswap16 0x0800"
    by (simp_all add: byteswap16_def)
  have nt: "ntoh16 LittleEndian 0x0100 = 1" "ntoh16 LittleEndian 0x0008 = 0x0800"
    unfolding sw by (simp_all add: ntoh16_def byteswap16_involution)
  \<comment> \<open>the first critical section of the receiving thread: nothing to merge\<close>
  have merge: "arp_rx_merge 1 2 ex_dev ?m (arp_init 0) = Inr (0, arp_init 0)"
    by (simp add: arp_rx_merge_def arp_table_update_def init_select)
      (simp add: arp_init_def)
  \<comment> \<open>the caller thread creates the entry for the same address in slot 0\<close>
  obtain s1 where
    e1: "arp_resolve_enter ex_env 2 True (Some ex_netif) ex_spa None 0 (arp_init 0) =
           Inr (Return ARP_RESOLVE_QUERY None, s1)"
    and t1: "table s1 = (table (arp_init 0))[0 := (table (arp_init 0) ! 0)
                \<lparr> used := True, pa := ex_spa, timestamp := 2, netif := Some ex_netif \<rparr>]"
    using resolve_enter_miss [OF init_select init_freespace] by blast
  have c: "ex_caller (arp_init 0) = s1"
    by (simp add: ex_caller_def arp_resolve_def e1)
  have len: "length (table (arp_init 0)) = ARP_TABLE_SIZE" by (simp add: arp_init_def)
  have u0: "used (table s1 ! 0)" "pa (table s1 ! 0) = ex_spa"
    by (simp_all add: t1 len table_size_pos)
  have u1: "\<not> used (table s1 ! Suc 0)"
    by (simp add: t1 arp_init_def arp_entry_zero_def table_size_pos)
  \<comment> \<open>the receiving thread inserts under its second lock, into slot 1\<close>
  have fs: "arp_table_freespace (table s1) = Some (Suc 0)"
    using u0(1) u1 by (rule freespace_second)
  let ?s2 = "snd (arp_table_insert 3 ex_spa [0x02, 0, 0, 0, 0, 0x07] s1)"
  have len1: "length (table s1) = ARP_TABLE_SIZE" by (simp add: t1 len)
  have t2: "table ?s2 = (table s1)[Suc 0 := (table s1 ! Suc 0)
      \<lparr> used := True, pa := ex_spa, ha := take ETHERNET_ADDR_LEN [0x02, 0, 0, 0, 0, 0x07],
        timestamp := 3 \<rparr>]"
    by (simp add: arp_table_insert_def fs)
  obtain r s3 where
    rp: "arp_send_reply ex_env (Some ex_netif) (Some [0x02, 0, 0, 0, 0, 0x07]) (Some ex_spa)
           [0x02, 0, 0, 0, 0, 0x07] ?s2 = Inr (r, s3)"
    and t3: "table s3 = table ?s2"
    using send_reply_returns by blast
  have g: "netdev_get_netif ex_env ex_dev NETIF_FAMILY_IPV4 = Some ex_netif"
    "endian ex_env = LittleEndian"
    by (simp_all add: ex_env_def ex_get_netif_def)
  have answer: "arp_rx_answer ex_env 3 ex_dev ?m 0 s1 = Inr s3"
    by (simp add: arp_rx_answer_def g m nt rp Let_def ARP_OP_REQUEST_def)
  have rx: "arp_rx ex_env 1 2 3 ex_caller ex_arp_request ex_dev (arp_init 0) = Inr s3"
  proof -
    have e: "endian ex_env = LittleEndian" by (simp add: ex_env_def)
    have l: "\<not> length ex_arp_request < sizeof_arp_ethernet"
      by (simp add: ex_arp_request_def sizeof_arp_ethernet_def)
    show ?thesis
      unfolding arp_rx_def Let_def e
      using l
      by (simp add: m nt merge c answer ARP_HRD_ETHERNET_def ETHERNET_TYPE_IP_def
          ETHERNET_ADDR_LEN_def IP_ADDR_LEN_def)
  qed
  have "used (table s3 ! 0)" "pa (table s3 ! 0) = ex_spa"
    "used (table s3 ! 1)" "pa (table s3 ! 1) = ex_spa"
    using u0 by (simp_all add: t3 t2 len1 table_size_pos)
  with rx show ?thesis by blast
qed

subsection \<open>C6: draining the pending payload\<close>

text \<open>C6. When \<^verbatim>\<open>arp_table_update\<close> matches a used entry that holds a pending payload (and
  a netif), it returns 0, hands that payload to \<^verbatim>\<open>tx\<close> as one frame of EtherType IPv4
  addressed to the newly learned link address, on the device stored in the entry's netif;
  it prints one warning exactly when the delivering device is not that device; and
  afterwards the entry holds the new link address, \<^verbatim>\<open>data = NULL\<close> and \<^verbatim>\<open>len = 0\<close>.\<close>

theorem arp_table_update_drains_pending:
  assumes "length (table s) = ARP_TABLE_SIZE"
    and "arp_table_select (table s) p = Some i"
    and "data (table s ! i) = Some d"
    and "netif (table s ! i) = Some nif"
  shows "\<exists>s'. arp_table_update now dv p h s = Inr (0, s') \<and>
           tx_log s' = tx_log s @
             [\<lparr> tx_dev = dev nif, tx_type = ETHERNET_TYPE_IP, tx_packet = d,
                tx_size = len (table s ! i), tx_dst = take ETHERNET_ADDR_LEN h \<rparr>] \<and>
           warnings s' = (if dev nif \<noteq> dv then warnings s + 1 else warnings s) \<and>
           ha (table s' ! i) = take ETHERNET_ADDR_LEN h \<and>
           data (table s' ! i) = None \<and> len (table s' ! i) = 0"
proof -
  from assms(2) have "i < ARP_TABLE_SIZE" using select_SomeD by blast
  with assms(1) have "i < length (table s)" by simp
  with assms(2,3,4) show ?thesis
    by (simp add: arp_table_update_def Let_def)
qed

theorem arp_table_update_drains_pending_witness:
  "length (table ex_pending) = ARP_TABLE_SIZE \<and>
   arp_table_select (table ex_pending) ex_pa = Some 0 \<and>
   data (table ex_pending ! 0) = Some [0xDE, 0xAD] \<and>
   netif (table ex_pending ! 0) = Some ex_netif \<and>
   (\<exists>s'. arp_table_update 9 ex_dev2 ex_pa [0x02, 0, 0, 0, 0, 0x02] ex_pending = Inr (0, s') \<and>
      tx_log s' = tx_log ex_pending @
        [\<lparr> tx_dev = ex_dev, tx_type = ETHERNET_TYPE_IP, tx_packet = [0xDE, 0xAD],
           tx_size = 2, tx_dst = [0x02, 0, 0, 0, 0, 0x02] \<rparr>] \<and>
      warnings s' = warnings ex_pending + 1 \<and>
      ha (table s' ! 0) = [0x02, 0, 0, 0, 0, 0x02] \<and>
      data (table s' ! 0) = None \<and> len (table s' ! 0) = 0)"
proof -
  have sel: "arp_table_select (table ex_pending) ex_pa = Some 0"
    by (rule select_first) (simp_all add: ex_pending_entry)
  have d: "data (table ex_pending ! 0) = Some [0xDE, 0xAD]"
    and n: "netif (table ex_pending ! 0) = Some ex_netif"
    by (simp_all add: ex_pending_entry)
  show ?thesis
    using arp_table_update_drains_pending [OF ex_pending_length sel d n,
        of 9 ex_dev2 "[0x02, 0, 0, 0, 0, 0x02]"]
    by (simp add: ex_pending_length sel ex_pending_entry ex_netif_def ETHERNET_ADDR_LEN_def
        ex_dev_def ex_dev2_def)
qed

subsection \<open>C7: malformed packets are dropped, well-formed ones processed\<close>

text \<open>C7. \<^verbatim>\<open>arp_rx\<close> returns without any change of the state (no cache change, no frame,
  no broadcast) whenever the packet is shorter than 28 octets or its \<open>hrd\<close> is not 1, its
  \<open>pro\<close> not 0x0800, its \<open>hln\<close> not 6 or its \<open>pln\<close> not 4. A packet of 28 octets or more
  that passes these checks is processed: \<^verbatim>\<open>arp_rx\<close> is then its first critical section
  (sweep and update) followed by the rest (insert and reply), both run on the struct read
  from the first 28 octets. In every case \<^verbatim>\<open>arp_rx\<close> on a packet of 28 octets or more does
  what it does on the first 28 octets: the trailing octets play no part.\<close>

theorem arp_rx_drops_malformed:
  "(length pkt < 28 \<or> f_hrd (arp_decode (endian en) pkt) \<noteq> 1 \<or>
    f_pro (arp_decode (endian en) pkt) \<noteq> 0x0800 \<or>
    f_hln (arp_decode (endian en) pkt) \<noteq> 6 \<or> f_pln (arp_decode (endian en) pkt) \<noteq> 4
      \<longrightarrow> arp_rx en now now_upd now_ins other pkt dv s = Inr s) \<and>
   (28 \<le> length pkt \<and> f_hrd (arp_decode (endian en) pkt) = 1 \<and>
    f_pro (arp_decode (endian en) pkt) = 0x0800 \<and>
    f_hln (arp_decode (endian en) pkt) = 6 \<and> f_pln (arp_decode (endian en) pkt) = 4
      \<longrightarrow> arp_rx en now now_upd now_ins other pkt dv s =
          (case arp_rx_merge now now_upd dv (arp_ethernet_of_bytes (endian en) (take 28 pkt)) s of
             Inl a \<Rightarrow> Inl a
           | Inr (merge, s1) \<Rightarrow>
               arp_rx_answer en now_ins dv (arp_ethernet_of_bytes (endian en) (take 28 pkt))
                 merge (other s1))) \<and>
   (28 \<le> length pkt
      \<longrightarrow> arp_rx en now now_upd now_ins other pkt dv s =
          arp_rx en now now_upd now_ins other (take 28 pkt) dv s)"
proof (intro conjI impI)
  assume "length pkt < 28 \<or> f_hrd (arp_decode (endian en) pkt) \<noteq> 1 \<or>
    f_pro (arp_decode (endian en) pkt) \<noteq> 0x0800 \<or>
    f_hln (arp_decode (endian en) pkt) \<noteq> 6 \<or> f_pln (arp_decode (endian en) pkt) \<noteq> 4"
  then show "arp_rx en now now_upd now_ins other pkt dv s = Inr s"
    by (auto simp: arp_rx_def arp_decode_def Let_def sizeof_arp_ethernet_def
        ARP_HRD_ETHERNET_def ETHERNET_TYPE_IP_def ETHERNET_ADDR_LEN_def IP_ADDR_LEN_def
        u8_unat_eq)
next
  assume a: "28 \<le> length pkt \<and> f_hrd (arp_decode (endian en) pkt) = 1 \<and>
    f_pro (arp_decode (endian en) pkt) = 0x0800 \<and>
    f_hln (arp_decode (endian en) pkt) = 6 \<and> f_pln (arp_decode (endian en) pkt) = 4"
  then have tk: "arp_ethernet_of_bytes (endian en) (take 28 pkt) =
      arp_ethernet_of_bytes (endian en) pkt"
    by (simp add: arp_ethernet_of_bytes_take)
  from a show "arp_rx en now now_upd now_ins other pkt dv s =
          (case arp_rx_merge now now_upd dv (arp_ethernet_of_bytes (endian en) (take 28 pkt)) s of
             Inl a \<Rightarrow> Inl a
           | Inr (merge, s1) \<Rightarrow>
               arp_rx_answer en now_ins dv (arp_ethernet_of_bytes (endian en) (take 28 pkt))
                 merge (other s1))"
    unfolding tk
    by (simp add: arp_rx_def arp_decode_def Let_def sizeof_arp_ethernet_def
        ARP_HRD_ETHERNET_def ETHERNET_TYPE_IP_def ETHERNET_ADDR_LEN_def IP_ADDR_LEN_def)
next
  assume "28 \<le> length pkt"
  then show "arp_rx en now now_upd now_ins other pkt dv s =
      arp_rx en now now_upd now_ins other (take 28 pkt) dv s"
    by (simp add: arp_rx_def arp_ethernet_of_bytes_take sizeof_arp_ethernet_def)
qed

theorem arp_rx_drops_malformed_witness:
  "length (replicate 27 (0 :: u8)) < 28 \<and>
   arp_rx ex_env 1 2 3 id (replicate 27 0) ex_dev ex_pending = Inr ex_pending \<and>
   f_hrd (arp_decode (endian ex_env) (ex_arp_request[1 := 2])) \<noteq> 1 \<and>
   arp_rx ex_env 1 2 3 id (ex_arp_request[1 := 2]) ex_dev ex_pending = Inr ex_pending \<and>
   28 \<le> length (ex_arp_request @ [0xFF]) \<and>
   f_hrd (arp_decode (endian ex_env) (ex_arp_request @ [0xFF])) = 1 \<and>
   f_pro (arp_decode (endian ex_env) (ex_arp_request @ [0xFF])) = 0x0800 \<and>
   f_hln (arp_decode (endian ex_env) (ex_arp_request @ [0xFF])) = 6 \<and>
   f_pln (arp_decode (endian ex_env) (ex_arp_request @ [0xFF])) = 4 \<and>
   (\<exists>s'. arp_rx ex_env 1 2 3 id (ex_arp_request @ [0xFF]) ex_dev (arp_init 0) = Inr s' \<and>
      used (table s' ! 0) \<and> pa (table s' ! 0) = ex_spa \<and>
      ha (table s' ! 0) = [0x02, 0, 0, 0, 0, 0x07] \<and> timestamp (table s' ! 0) = 3 \<and>
      broadcasts s' = [0] \<and>
      map tx_type (tx_log s') = [ETHERNET_TYPE_ARP] \<and>
      map tx_dst (tx_log s') = [[0x02, 0, 0, 0, 0, 0x07]]) \<and>
   arp_rx ex_env 1 2 3 id (ex_arp_request @ [0xFF]) ex_dev (arp_init 0) =
     arp_rx ex_env 1 2 3 id ex_arp_request ex_dev (arp_init 0)"
proof -
  let ?p = "ex_arp_request @ [0xFF]"
  let ?m = "arp_ethernet_of_bytes LittleEndian ex_arp_request"
  have e: "endian ex_env = LittleEndian"
    and g: "netdev_get_netif ex_env ex_dev NETIF_FAMILY_IPV4 = Some ex_netif"
    by (simp_all add: ex_env_def ex_get_netif_def)
  have hrd: "f_hrd (arp_decode (endian ex_env) (ex_arp_request[1 := 2])) \<noteq> 1"
    by (simp add: arp_decode_def arp_ethernet_of_bytes_def Let_def ntoh16_load16
        ex_arp_request_def word_cat_eq)
  have tk: "take 28 ?p = ex_arp_request"
    by (simp add: ex_arp_request_def)
  have len: "28 \<le> length ?p" by (simp add: ex_arp_request_def)
  have "arp_ethernet_of_bytes (endian ex_env) ex_arp_request =
      arp_ethernet_of_bytes (endian ex_env) ?p"
    using arp_ethernet_of_bytes_take [OF len, of "endian ex_env"] by (simp only: tk)
  then have dec: "arp_decode (endian ex_env) ?p = arp_decode (endian ex_env) ex_arp_request"
    by (simp only: arp_decode_def)
  have chk: "f_hrd (arp_decode (endian ex_env) ?p) = 1"
    "f_pro (arp_decode (endian ex_env) ?p) = 0x0800"
    "f_hln (arp_decode (endian ex_env) ?p) = 6"
    "f_pln (arp_decode (endian ex_env) ?p) = 4"
    unfolding dec by (simp_all add: ex_arp_request_decode)
  have m: "spa ?m = ex_spa" "sha ?m = [0x02, 0, 0, 0, 0, 0x07]" "tpa ?m = unicast ex_netif"
    "hdr ?m = \<lparr> hrd = 0x0100, pro = 0x0008, hln = 6, pln = 4, op = 0x0100 \<rparr>"
    by (simp_all add: ex_arp_request_struct)
  have sw: "(0x0100 :: u16) = byteswap16 1"
    by (simp add: byteswap16_def)
  have nt: "ntoh16 LittleEndian 0x0100 = 1"
    unfolding sw by (simp add: ntoh16_def byteswap16_involution)
  \<comment> \<open>the first critical section: no sweep at clock reading 1, nothing to merge\<close>
  have merge: "arp_rx_merge 1 2 ex_dev ?m (arp_init 0) = Inr (0, arp_init 0)"
    by (simp add: arp_rx_merge_def arp_table_update_def init_select)
      (simp add: arp_init_def)
  \<comment> \<open>the insert into slot 0 and the reply\<close>
  let ?s2 = "snd (arp_table_insert 3 ex_spa [0x02, 0, 0, 0, 0, 0x07] (arp_init 0))"
  have ins: "?s2 = (arp_init 0)\<lparr> table := (table (arp_init 0))[0 := (table (arp_init 0) ! 0)
      \<lparr> used := True, pa := ex_spa, ha := take ETHERNET_ADDR_LEN [0x02, 0, 0, 0, 0, 0x07],
        timestamp := 3 \<rparr>], broadcasts := broadcasts (arp_init 0) @ [0] \<rparr>"
    by (simp add: arp_table_insert_def init_freespace)
  from send_reply_log [where en = ex_env and n = ex_netif and th = "[0x02, 0, 0, 0, 0, 0x07]"
      and t = ex_spa and dst = "[0x02, 0, 0, 0, 0, 0x07]" and s = ?s2]
  obtain r c where
    rp: "arp_send_reply ex_env (Some ex_netif) (Some [0x02, 0, 0, 0, 0, 0x07]) (Some ex_spa)
           [0x02, 0, 0, 0, 0, 0x07] ?s2 = Inr (r, ?s2\<lparr> tx_log := tx_log ?s2 @ [c] \<rparr>)"
    and c: "tx_type c = ETHERNET_TYPE_ARP" "tx_dst c = [0x02, 0, 0, 0, 0, 0x07]"
    by (elim exE conjE)
  let ?s3 = "?s2\<lparr> tx_log := tx_log ?s2 @ [c] \<rparr>"
  have answer: "arp_rx_answer ex_env 3 ex_dev ?m 0 (arp_init 0) = Inr ?s3"
    by (simp add: arp_rx_answer_def g e m nt rp Let_def ARP_OP_REQUEST_def)
  have pipe: "arp_rx ex_env 1 2 3 id ?p ex_dev (arp_init 0) =
      (case arp_rx_merge 1 2 ex_dev (arp_ethernet_of_bytes (endian ex_env) (take 28 ?p))
              (arp_init 0) of
         Inl a \<Rightarrow> Inl a
       | Inr (merge, s1) \<Rightarrow>
           arp_rx_answer ex_env 3 ex_dev (arp_ethernet_of_bytes (endian ex_env) (take 28 ?p))
             merge (id s1))"
    by (rule arp_rx_drops_malformed [THEN conjunct2, THEN conjunct1, THEN mp])
      (intro conjI len chk)
  have rx: "arp_rx ex_env 1 2 3 id ?p ex_dev (arp_init 0) = Inr ?s3"
    unfolding pipe tk e by (simp add: merge answer)
  have props: "used (table ?s3 ! 0)" "pa (table ?s3 ! 0) = ex_spa"
    "ha (table ?s3 ! 0) = [0x02, 0, 0, 0, 0, 0x07]" "timestamp (table ?s3 ! 0) = 3"
    "broadcasts ?s3 = [0]"
    "map tx_type (tx_log ?s3) = [ETHERNET_TYPE_ARP]"
    "map tx_dst (tx_log ?s3) = [[0x02, 0, 0, 0, 0, 0x07]]"
    unfolding ins using c
    by (simp_all add: arp_init_def table_size_pos ETHERNET_ADDR_LEN_def)
  have ex: "\<exists>s'. arp_rx ex_env 1 2 3 id ?p ex_dev (arp_init 0) = Inr s' \<and>
      used (table s' ! 0) \<and> pa (table s' ! 0) = ex_spa \<and>
      ha (table s' ! 0) = [0x02, 0, 0, 0, 0, 0x07] \<and> timestamp (table s' ! 0) = 3 \<and>
      broadcasts s' = [0] \<and>
      map tx_type (tx_log s') = [ETHERNET_TYPE_ARP] \<and>
      map tx_dst (tx_log s') = [[0x02, 0, 0, 0, 0, 0x07]]"
    by (rule exI [of _ "?s3"]) (intro conjI rx props)
  have l27: "length (replicate 27 (0 :: u8)) < 28" by simp
  have d1: "arp_rx ex_env 1 2 3 id (replicate 27 0) ex_dev ex_pending = Inr ex_pending"
    by (rule arp_rx_drops_malformed [THEN conjunct1, THEN mp]) (rule disjI1, rule l27)
  have d2: "arp_rx ex_env 1 2 3 id (ex_arp_request[1 := 2]) ex_dev ex_pending = Inr ex_pending"
    by (rule arp_rx_drops_malformed [THEN conjunct1, THEN mp])
      (rule disjI2, rule disjI1, rule hrd)
  have "arp_rx ex_env 1 2 3 id ?p ex_dev (arp_init 0) =
     arp_rx ex_env 1 2 3 id (take 28 ?p) ex_dev (arp_init 0)"
    by (rule arp_rx_drops_malformed [THEN conjunct2, THEN conjunct2, THEN mp]) (rule len)
  then have d3: "arp_rx ex_env 1 2 3 id ?p ex_dev (arp_init 0) =
     arp_rx ex_env 1 2 3 id ex_arp_request ex_dev (arp_init 0)"
    by (simp only: tk)
  show ?thesis
    by (intro conjI) (rule l27 d1 hrd d2 len chk ex d3)+
qed

subsection \<open>C8: the sweep is throttled\<close>

text \<open>C8. The first critical section of \<^verbatim>\<open>arp_rx\<close> calls \<^verbatim>\<open>arp_table_patrol\<close> exactly when its
  clock reading is more than 10 seconds past the sweep timestamp, and has set the sweep
  timestamp to that reading before the sweep looks at the entries (an entry used and older
  than 300 seconds against the new timestamp is free afterwards); otherwise it leaves the
  sweep log and the timestamp alone, as does the rest of \<^verbatim>\<open>arp_rx\<close>. Hence in every
  reachable state, whatever the sequence of \<^verbatim>\<open>arp_rx\<close> and \<^verbatim>\<open>arp_resolve\<close> calls and
  whatever the clock read, any two sweeps are more than 10 seconds apart.\<close>

theorem arp_rx_sweep_throttle:
  "(arp_rx_merge now now_upd dv m s = Inr (mg, s') \<longrightarrow>
      (if 10 < now - sweep_timestamp s
       then sweeps s' = sweeps s @ [now] \<and> sweep_timestamp s' = now \<and>
            (\<forall>k. k < ARP_TABLE_SIZE \<and> k < length (table s) \<and> used (table s ! k) \<and>
                 ARP_TABLE_TIMEOUT_SEC < now - timestamp (table s ! k)
                 \<longrightarrow> \<not> used (table s' ! k))
       else sweeps s' = sweeps s \<and> sweep_timestamp s' = sweep_timestamp s)) \<and>
   (arp_rx_answer en now_ins dv m mg s = Inr s'' \<longrightarrow>
      sweeps s'' = sweeps s \<and> sweep_timestamp s'' = sweep_timestamp s) \<and>
   (reachable s \<and> i < j \<and> j < length (sweeps s) \<longrightarrow> 10 < sweeps s ! j - sweeps s ! i)"
proof (intro conjI impI)
  assume "arp_rx_merge now now_upd dv m s = Inr (mg, s')"
  then show "if 10 < now - sweep_timestamp s
       then sweeps s' = sweeps s @ [now] \<and> sweep_timestamp s' = now \<and>
            (\<forall>k. k < ARP_TABLE_SIZE \<and> k < length (table s) \<and> used (table s ! k) \<and>
                 ARP_TABLE_TIMEOUT_SEC < now - timestamp (table s ! k)
                 \<longrightarrow> \<not> used (table s' ! k))
       else sweeps s' = sweeps s \<and> sweep_timestamp s' = sweep_timestamp s"
    by (rule rx_merge_sweeps)
next
  assume "arp_rx_answer en now_ins dv m mg s = Inr s''"
  then show "sweeps s'' = sweeps s" "sweep_timestamp s'' = sweep_timestamp s"
    using rx_answer_sweeps by blast+
next
  assume "reachable s \<and> i < j \<and> j < length (sweeps s)"
  then show "10 < sweeps s ! j - sweeps s ! i"
    using reachable_sweeps_ok [of s] by (simp add: sweeps_ok_def)
qed

theorem arp_rx_sweep_throttle_witness:
  "10 < 308 - sweep_timestamp ex_inflight \<and> used (table ex_inflight ! 0) \<and>
   ARP_TABLE_TIMEOUT_SEC < 308 - timestamp (table ex_inflight ! 0) \<and>
   (\<exists>mg s'. arp_rx_merge 308 309 ex_dev (arp_ethernet_of_bytes LittleEndian ex_arp_request)
               ex_inflight = Inr (mg, s') \<and>
            sweeps s' = [308] \<and> sweep_timestamp s' = 308 \<and> \<not> used (table s' ! 0)) \<and>
   \<not> 10 < 9 - sweep_timestamp ex_inflight \<and>
   (\<exists>mg s'. arp_rx_merge 9 9 ex_dev (arp_ethernet_of_bytes LittleEndian ex_arp_request)
               ex_inflight = Inr (mg, s') \<and>
            sweeps s' = [] \<and> sweep_timestamp s' = 0) \<and>
   reachable ex_swept2 \<and> sweeps ex_swept2 = [11, 22] \<and>
   10 < sweeps ex_swept2 ! 1 - sweeps ex_swept2 ! 0"
proof -
  let ?m = "arp_ethernet_of_bytes LittleEndian ex_arp_request"
  have ok: "table_ok ex_inflight"
    using ex_inflight_reachable by (rule reachable_table_ok)
  obtain mg1 s1 where m1: "arp_rx_merge 308 309 ex_dev ?m ex_inflight = Inr (mg1, s1)"
    using rx_merge_returns [OF ok] by blast
  obtain mg2 s2 where m2: "arp_rx_merge 9 9 ex_dev ?m ex_inflight = Inr (mg2, s2)"
    using rx_merge_returns [OF ok] by blast
  have f: "sweep_timestamp ex_inflight = 0" "sweeps ex_inflight = []"
    "length (table ex_inflight) = ARP_TABLE_SIZE"
    by (simp_all add: ex_inflight_def arp_init_def)
  have sw: "sweeps ex_swept2 = [11, 22]" by (simp add: ex_swept2_def)
  from arp_rx_sweep_throttle [of 308 309 ex_dev ?m ex_inflight mg1 s1 ex_env 0 s1 0 1] m1
  have c1: "sweeps s1 = [308] \<and> sweep_timestamp s1 = 308 \<and> \<not> used (table s1 ! 0)"
    by (simp add: f ex_inflight_entry table_size_pos ARP_TABLE_TIMEOUT_SEC_def)
  from arp_rx_sweep_throttle [of 9 9 ex_dev ?m ex_inflight mg2 s2 ex_env 0 s2 0 1] m2
  have c2: "sweeps s2 = [] \<and> sweep_timestamp s2 = 0"
    by (simp add: f)
  from arp_rx_sweep_throttle [of 0 0 ex_dev ?m ex_swept2 0 ex_swept2 ex_env 0 ex_swept2 0 1]
  have c3: "10 < sweeps ex_swept2 ! 1 - sweeps ex_swept2 ! 0"
    by (simp add: ex_swept2_reachable sw)
  from c1 c2 c3 m1 m2 show ?thesis
    by (simp add: f ex_inflight_entry ARP_TABLE_TIMEOUT_SEC_def ex_swept2_reachable sw)
qed

subsection \<open>C9: the codec round trip\<close>

text \<open>C9. For every message of 28 octets, encoding the decoded field tuple gives the
  original octets back, on a host of either byte order. Well-formedness of the header
  fields is not needed for this.\<close>

theorem arp_encode_decode:
  assumes "length bs = 28"
  shows "arp_encode e (arp_decode e bs) = bs"
proof -
  have enc: "arp_encode e (arp_decode e bs) =
      [bs ! 0, bs ! 1, bs ! 2, bs ! 3, bs ! 4, bs ! 5, bs ! 6, bs ! 7] @ take 6 (drop 8 bs) @
      [bs ! 14, bs ! 15, bs ! 16, bs ! 17] @ take 6 (drop 18 bs) @
      [bs ! 24, bs ! 25, bs ! 26, bs ! 27]"
    by (simp add: arp_encode_def arp_decode_def arp_ethernet_of_bytes_def
        bytes_of_arp_ethernet_def Let_def hton16_ntoh16 store16_load16 store32_load32
        ETHERNET_ADDR_LEN_def)
  have s8: "take 6 (drop 8 bs) = [bs ! 8, bs ! 9, bs ! 10, bs ! 11, bs ! 12, bs ! 13]"
    using take6_drop [of 8 bs] assms by simp
  have s18: "take 6 (drop 18 bs) = [bs ! 18, bs ! 19, bs ! 20, bs ! 21, bs ! 22, bs ! 23]"
    using take6_drop [of 18 bs] assms by simp
  show ?thesis
    unfolding enc s8 s18 using list28 [OF assms] by (simp only: append.simps)
qed


theorem arp_encode_decode_witness:
  "length ex_arp_request = 28 \<and>
   arp_encode LittleEndian (arp_decode LittleEndian ex_arp_request) = ex_arp_request"
proof -
  have l: "length ex_arp_request = 28" by (simp add: ex_arp_request_def)
  show ?thesis using arp_encode_decode [OF l, of LittleEndian] l by simp
qed

subsection \<open>C10: a pending payload always has its netif\<close>

text \<open>C10. In every reachable state, an entry whose \<^verbatim>\<open>data\<close> pointer is not \<^verbatim>\<open>NULL\<close> has a
  netif that is not \<^verbatim>\<open>NULL\<close>, so \<^verbatim>\<open>arp_table_update\<close> never dereferences a \<^verbatim>\<open>NULL\<close> netif
  there: it returns.\<close>

theorem pending_payload_has_netif:
  assumes "reachable s"
  shows "(\<forall>i < ARP_TABLE_SIZE. data (table s ! i) \<noteq> None \<longrightarrow> netif (table s ! i) \<noteq> None) \<and>
         (\<exists>r s'. arp_table_update now dv p h s = Inr (r, s'))"
proof
  from assms have ok: "table_ok s" by (rule reachable_table_ok)
  then show inv: "\<forall>i < ARP_TABLE_SIZE. data (table s ! i) \<noteq> None \<longrightarrow> netif (table s ! i) \<noteq> None"
    by (simp add: table_ok_def entry_ok_def)
  show "\<exists>r s'. arp_table_update now dv p h s = Inr (r, s')"
  proof (cases "arp_table_select (table s) p")
    case None
    then show ?thesis by (simp add: arp_table_update_def)
  next
    case (Some i)
    then have "i < ARP_TABLE_SIZE" using select_SomeD by blast
    with inv have "data (table s ! i) \<noteq> None \<longrightarrow> netif (table s ! i) \<noteq> None" by blast
    with Some show ?thesis
      by (auto simp: arp_table_update_def Let_def split: option.splits)
  qed
qed

theorem pending_payload_has_netif_witness:
  "reachable ex_pending \<and> 0 < ARP_TABLE_SIZE \<and> data (table ex_pending ! 0) \<noteq> None \<and>
   netif (table ex_pending ! 0) \<noteq> None \<and>
   (\<exists>r s'. arp_table_update 9 ex_dev ex_pa [0x02, 0, 0, 0, 0, 0x02] ex_pending = Inr (r, s'))"
  using pending_payload_has_netif [OF ex_pending_reachable, of 9 ex_dev ex_pa "[0x02, 0, 0, 0, 0, 0x02]"]
  by (simp add: ex_pending_reachable ex_pending_entry table_size_pos)

end
